theory Spec2Isabelle
  imports Complex_Main "HOL-Library.Multiset"
begin

section \<open>Errors and the metadata bundle\<close>

text \<open>
  The exceptions that the modelled parts of \<^verbatim>\<open>extraction.py\<close> can raise. The source
  defines no exception class of its own: every failure is a built-in Python exception or one
  raised by the tensor library.
\<close>

datatype error =
    KeyError string
  | IndexError
  | ValueError
  | TypeError
  | RuntimeError
  | OSError

text \<open>Sequencing of two steps: an exception of the first step skips the second.\<close>

fun and_then :: "error + 'a \<Rightarrow> ('a \<Rightarrow> error + 'b) \<Rightarrow> error + 'b" where
  "and_then (Inl e) f = Inl e"
| "and_then (Inr x) f = f x"

text \<open>
  The metadata bundle of a batch is a dictionary with the six keys below; \<^verbatim>\<open>'id'\<close> holds a
  one-dimensional integer tensor, the other keys hold lists of strings. The empty
  dictionary \<^verbatim>\<open>{}\<close> with which \<^verbatim>\<open>all_metadata\<close> and \<^verbatim>\<open>flat_metadata\<close> start is
  \<open>None\<close>; a dictionary with the six keys is \<open>Some\<close> of the record.
\<close>

record metadata =
  id_col :: "int list"
  object_name :: "string list"
  data_dir :: "string list"
  image_path :: "string list"
  mask_path :: "string list"
  dataset_type :: "string list"

section \<open>The batch loop of one worker (lines 426-453)\<close>

text \<open>
  \<^verbatim>\<open>all_metadata == {}\<close> takes the first batch's bundle as it is; afterwards the id tensor and
  the five lists are extended with the new batch, the accumulated rows first.
\<close>

fun append_metadata :: "metadata option \<Rightarrow> metadata \<Rightarrow> metadata option" where
  "append_metadata None m = Some m"
| "append_metadata (Some a) m = Some
     \<lparr> id_col = id_col a @ id_col m,
       object_name = object_name a @ object_name m,
       data_dir = data_dir a @ data_dir m,
       image_path = image_path a @ image_path m,
       mask_path = mask_path a @ mask_path m,
       dataset_type = dataset_type a @ dataset_type m \<rparr>"

text \<open>
  One turn of the loop appends the batch's feature matrix (a list of rows) to
  \<^verbatim>\<open>all_features\<close> and merges its metadata.
\<close>

definition accumulate_batch ::
  "'f list list \<times> metadata option \<Rightarrow> 'f list \<times> metadata \<Rightarrow> 'f list list \<times> metadata option" where
  "accumulate_batch acc b = (fst acc @ [fst b], append_metadata (snd acc) (snd b))"

definition worker_log :: "('f list \<times> metadata) list \<Rightarrow> 'f list list \<times> metadata option" where
  "worker_log batches = foldl accumulate_batch ([], None) batches"

section \<open>Reconciliation (lines 462-499)\<close>

text \<open>
  \<^verbatim>\<open>dist.all_gather_object\<close> fills every slot of \<^verbatim>\<open>gathered_features\<close> and
  \<^verbatim>\<open>gathered_metadata\<close>, in rank order, so the \<^verbatim>\<open>is not None\<close> guards always pass.
  Global flatten of the features: every row of every batch matrix of every worker, appended
  in that order.
\<close>

definition flatten_features :: "'f list list list \<Rightarrow> 'f list" where
  "flatten_features gathered_features =
     foldl (\<lambda>flat proc_features. foldl (\<lambda>flat feat_matrix. flat @ feat_matrix) flat proc_features)
       [] gathered_features"

text \<open>
  Global flatten of the metadata, one worker at a time (lines 469-479). The first non-empty
  bundle is taken as it is. For each later worker the id tensor is
  \<^verbatim>\<open>torch.cat((proc_metadata['id'], flat_metadata['id']))\<close>, the worker's ids \<^emph>\<open>before\<close> the
  ones collected so far, while the five lists are extended at their end. A later worker whose
  bundle is still \<^verbatim>\<open>{}\<close> raises \<^verbatim>\<open>KeyError\<close> at \<^verbatim>\<open>proc_metadata['id']\<close>.
\<close>

fun merge_metadata :: "metadata option \<Rightarrow> metadata option \<Rightarrow> error + metadata option" where
  "merge_metadata None proc_metadata = Inr proc_metadata"
| "merge_metadata (Some flat) None = Inl (KeyError ''id'')"
| "merge_metadata (Some flat) (Some proc) = Inr (Some
     \<lparr> id_col = id_col proc @ id_col flat,
       object_name = object_name flat @ object_name proc,
       data_dir = data_dir flat @ data_dir proc,
       image_path = image_path flat @ image_path proc,
       mask_path = mask_path flat @ mask_path proc,
       dataset_type = dataset_type flat @ dataset_type proc \<rparr>)"

fun flatten_metadata :: "metadata option \<Rightarrow> metadata option list \<Rightarrow> error + metadata option" where
  "flatten_metadata flat [] = Inr flat"
| "flatten_metadata flat (proc_metadata # rest) =
     (case merge_metadata flat proc_metadata of
        Inl e \<Rightarrow> Inl e
      | Inr flat' \<Rightarrow> flatten_metadata flat' rest)"

text \<open>
  Indexing a sequence with a list of indices: NumPy's fancy indexing and the list
  comprehensions of lines 489-493 raise \<^verbatim>\<open>IndexError\<close> on an index past the end.
\<close>

definition take_rows :: "'a list \<Rightarrow> nat list \<Rightarrow> error + 'a list" where
  "take_rows xs idx =
     (if list_all (\<lambda>i. i < length xs) idx then Inr (map (\<lambda>i. xs ! i) idx) else Inl IndexError)"

text \<open>
  Canonicalize and apply (lines 481-494). \<^verbatim>\<open>sorted\<close> is a stable sort on the id, as
  \<^const>\<open>sort_key\<close> is. An empty \<^verbatim>\<open>flat_metadata\<close> raises \<^verbatim>\<open>KeyError\<close> at
  \<^verbatim>\<open>flat_metadata['id']\<close>. The result is the pair of \<^verbatim>\<open>all_features\<close> and \<^verbatim>\<open>all_metadata\<close>
  as they stand at line 496.
\<close>

definition sorted_indices :: "int list \<Rightarrow> nat list" where
  "sorted_indices ids = map fst (sort_key snd (enumerate 0 ids))"

definition canonicalize :: "'f list \<Rightarrow> metadata option \<Rightarrow> error + ('f list \<times> metadata)" where
  "canonicalize flat_features flat_metadata =
     (case flat_metadata of
        None \<Rightarrow> Inl (KeyError ''id'')
      | Some md \<Rightarrow>
          (let idx = sorted_indices (id_col md) in
           and_then (take_rows flat_features idx) (\<lambda>sorted_features.
           and_then (take_rows (id_col md) idx) (\<lambda>ids.
           and_then (take_rows (object_name md) idx) (\<lambda>names.
           and_then (take_rows (data_dir md) idx) (\<lambda>dirs.
           and_then (take_rows (image_path md) idx) (\<lambda>images.
           and_then (take_rows (mask_path md) idx) (\<lambda>masks.
           and_then (take_rows (dataset_type md) idx) (\<lambda>types.
             Inr (sorted_features,
                  \<lparr> id_col = ids, object_name = names, data_dir = dirs, image_path = images,
                    mask_path = masks, dataset_type = types \<rparr>))))))))))"

text \<open>The whole distributed branch, from the gathered logs to the reconciled result.\<close>

definition global_flatten ::
  "('f list list \<times> metadata option) list \<Rightarrow> error + ('f list \<times> metadata option)" where
  "global_flatten gathered =
     (case flatten_metadata None (map snd gathered) of
        Inl e \<Rightarrow> Inl e
      | Inr flat_metadata \<Rightarrow> Inr (flatten_features (map fst gathered), flat_metadata))"

definition reconcile ::
  "('f list list \<times> metadata option) list \<Rightarrow> error + ('f list \<times> metadata)" where
  "reconcile gathered =
     (case global_flatten gathered of
        Inl e \<Rightarrow> Inl e
      | Inr (flat_features, flat_metadata) \<Rightarrow> canonicalize flat_features flat_metadata)"

text \<open>
  The bundle that the data loader hands over for a batch of samples with the given ids;
  the strings are derived from the id so that the rows can be told apart.
\<close>

definition tag :: "string \<Rightarrow> int list \<Rightarrow> string list" where
  "tag p ids = map (\<lambda>i. p @ [''0123456789'' ! nat i]) ids"

definition batch_metadata :: "int list \<Rightarrow> metadata" where
  "batch_metadata ids =
     \<lparr> id_col = ids, object_name = tag ''obj'' ids, data_dir = tag ''dir'' ids,
       image_path = tag ''img'' ids, mask_path = tag ''msk'' ids, dataset_type = tag ''typ'' ids \<rparr>"

text \<open>
  The scenario of the specification: worker 0 drained the samples 3 and 1, worker 1 the
  samples 4 and 2, each in one batch; the vector produced for id k is \<open>''vk''\<close>.
\<close>

definition scenario :: "(string list list \<times> metadata option) list" where
  "scenario =
     [worker_log [(tag ''v'' [3, 1], batch_metadata [3, 1])],
      worker_log [(tag ''v'' [4, 2], batch_metadata [4, 2])]]"

text \<open>
  A gathered worker log is row-aligned when the worker drained at least one batch and its
  feature rows and its six metadata columns all have the same length, as the data loader's
  batches guarantee.
\<close>

definition aligned_log :: "'f list list \<times> metadata option \<Rightarrow> bool" where
  "aligned_log w =
     (case snd w of
        None \<Rightarrow> False
      | Some md \<Rightarrow>
          length (concat (fst w)) = length (id_col md) \<and>
          length (object_name md) = length (id_col md) \<and>
          length (data_dir md) = length (id_col md) \<and>
          length (image_path md) = length (id_col md) \<and>
          length (mask_path md) = length (id_col md) \<and>
          length (dataset_type md) = length (id_col md))"

text \<open>All ids that the workers contributed, in rank order.\<close>

definition gathered_ids :: "('f list list \<times> metadata option) list \<Rightarrow> int list" where
  "gathered_ids gathered =
     concat (map (\<lambda>w. case snd w of None \<Rightarrow> [] | Some md \<Rightarrow> id_col md) gathered)"

text \<open>
  Two workers whose shards overlap in the sample 0: worker 0 drained the samples 0 and 2,
  worker 1 the samples 1 and 0.
\<close>

definition padded_logs :: "(string list list \<times> metadata option) list" where
  "padded_logs =
     [worker_log [(tag ''v'' [0, 2], batch_metadata [0, 2])],
      worker_log [(tag ''v'' [1, 0], batch_metadata [1, 0])]]"

section \<open>Mask composition (lines 265-302)\<close>

text \<open>
  A tensor is its shape and its elements in row-major order. Comparison of floating-point
  numbers and their product with 0 or 1 are exact, so the elements are modelled as reals
  (NaN and the infinities are left out). The mask batch may have any rank. The image batch is
  four-dimensional (B, C, H, W), as the docstring of \<^verbatim>\<open>extract_features\<close> says and as
  \<^verbatim>\<open>process_batch\<close> needs at line 341; its four sizes are the fields \<open>size0\<close> to \<open>size3\<close>.
\<close>

record tensor =
  shape :: "nat list"
  elems :: "real list"

record tensor4 =
  size0 :: nat
  size1 :: nat
  size2 :: nat
  size3 :: nat
  data :: "real list"

definition wf_tensor :: "tensor \<Rightarrow> bool" where
  "wf_tensor t = (length (elems t) = prod_list (shape t))"

definition wf_tensor4 :: "tensor4 \<Rightarrow> bool" where
  "wf_tensor4 t = (length (data t) = size0 t * size1 t * size2 t * size3 t)"

text \<open>Line 276: \<^verbatim>\<open>(mask > threshold).float()\<close>, elementwise; the shape is kept.\<close>

definition prepare_binary_mask :: "tensor \<Rightarrow> real \<Rightarrow> tensor" where
  "prepare_binary_mask msk threshold =
     msk\<lparr> elems := map (\<lambda>x. if x > threshold then 1 else 0) (elems msk) \<rparr>"

text \<open>
  Line 300: \<^verbatim>\<open>unsqueeze(1)\<close> inserts a dimension of size 1 after the first one; a tensor
  of rank 0 has no position 1 and the call raises \<^verbatim>\<open>IndexError\<close>.
\<close>

definition unsqueeze1 :: "tensor \<Rightarrow> error + tensor" where
  "unsqueeze1 t =
     (case shape t of
        [] \<Rightarrow> Inl IndexError
      | d # ds \<Rightarrow> Inr (t\<lparr> shape := d # 1 # ds \<rparr>))"

text \<open>The element at a position of a row-major array with the given last three sizes.\<close>

definition at4 :: "nat \<Rightarrow> nat \<Rightarrow> nat \<Rightarrow> real list \<Rightarrow> nat \<Rightarrow> nat \<Rightarrow> nat \<Rightarrow> nat \<Rightarrow> real" where
  "at4 c h w xs i j k l = xs ! (((i * c + j) * h + k) * w + l)"

text \<open>A four-dimensional tensor from its sizes and its element at each position.\<close>

definition build4 :: "nat \<Rightarrow> nat \<Rightarrow> nat \<Rightarrow> nat \<Rightarrow> (nat \<Rightarrow> nat \<Rightarrow> nat \<Rightarrow> nat \<Rightarrow> real) \<Rightarrow> tensor4" where
  "build4 b c h w f =
     \<lparr> size0 = b, size1 = c, size2 = h, size3 = w,
       data = concat (map (\<lambda>i. concat (map (\<lambda>j. concat (map (\<lambda>k. map (\<lambda>l. f i j k l) [0..<w])
                [0..<h])) [0..<c])) [0..<b]) \<rparr>"

text \<open>
  Line 301: \<^verbatim>\<open>expand(-1, C, -1, -1)\<close>. Four sizes are given: a tensor of rank above 4 is
  refused, and so is one of rank below 4, for which \<^verbatim>\<open>-1\<close> would stand at a new leading
  dimension. At rank 4 the channel dimension must be C already or 1, in which case it is
  repeated C times; every other size raises \<^verbatim>\<open>RuntimeError\<close>.
\<close>

definition expand_channels :: "tensor \<Rightarrow> nat \<Rightarrow> error + tensor4" where
  "expand_channels t C =
     (case shape t of
        [b, c, h, w] \<Rightarrow>
          if c = C then Inr \<lparr> size0 = b, size1 = c, size2 = h, size3 = w, data = elems t \<rparr>
          else if c = 1 then Inr (build4 b C h w (\<lambda>i j k l. at4 1 h w (elems t) i 0 k l))
          else Inl RuntimeError
      | _ \<Rightarrow> Inl RuntimeError)"

text \<open>
  Line 302: the elementwise product with broadcasting. Two sizes of a dimension are
  compatible when they are equal or one of them is 1; the dimension of size 1 is then read at
  index 0 throughout. Incompatible sizes raise \<^verbatim>\<open>RuntimeError\<close>.
\<close>

definition bdim :: "nat \<Rightarrow> nat \<Rightarrow> nat option" where
  "bdim m n = (if m = n then Some m else if m = 1 then Some n else if n = 1 then Some m else None)"

definition bidx :: "nat \<Rightarrow> nat \<Rightarrow> nat" where
  "bidx n i = (if n = 1 then 0 else i)"

definition bat4 :: "tensor4 \<Rightarrow> nat \<Rightarrow> nat \<Rightarrow> nat \<Rightarrow> nat \<Rightarrow> real" where
  "bat4 t i j k l =
     at4 (size1 t) (size2 t) (size3 t) (data t)
       (bidx (size0 t) i) (bidx (size1 t) j) (bidx (size2 t) k) (bidx (size3 t) l)"

definition mul_broadcast :: "tensor4 \<Rightarrow> tensor4 \<Rightarrow> error + tensor4" where
  "mul_broadcast x y =
     (case (bdim (size0 x) (size0 y), bdim (size1 x) (size1 y),
            bdim (size2 x) (size2 y), bdim (size3 x) (size3 y)) of
        (Some b, Some c, Some h, Some w) \<Rightarrow>
          Inr (build4 b c h w (\<lambda>i j k l. bat4 x i j k l * bat4 y i j k l))
      | _ \<Rightarrow> Inl RuntimeError)"

text \<open>
  Lines 297-302 of \<^verbatim>\<open>extract_features\<close>: binarize at the default threshold 0.5, add the
  channel dimension when the rank is below 4, expand to the images' channel count, multiply.
\<close>

definition masked_images :: "tensor4 \<Rightarrow> tensor \<Rightarrow> error + tensor4" where
  "masked_images images masks =
     (let binary_masks = prepare_binary_mask masks 0.5 in
      and_then (if length (shape binary_masks) < 4 then unsqueeze1 binary_masks else Inr binary_masks)
        (\<lambda>binary_masks.
      and_then (expand_channels binary_masks (size1 images)) (\<lambda>binary_masks.
        mul_broadcast images binary_masks)))"

text \<open>A batch of two two-channel images of one row and two columns, and masks for it.\<close>

definition images2 :: tensor4 where
  "images2 = \<lparr> size0 = 2, size1 = 2, size2 = 1, size3 = 2, data = [1, 2, 3, 4, 5, 6, 7, 8] \<rparr>"

definition masks2 :: tensor where
  "masks2 = \<lparr> shape = [2, 1, 2], elems = [0.2, 0.6, 0.5, 0.9] \<rparr>"

definition masks1 :: tensor where
  "masks1 = \<lparr> shape = [1, 1, 2], elems = [0.2, 0.6] \<rparr>"

definition masks3 :: tensor where
  "masks3 = \<lparr> shape = [3, 1, 2], elems = [0.2, 0.6, 0.5, 0.9, 0.1, 0.7] \<rparr>"

section \<open>Feature extraction of one batch (lines 235-310)\<close>












section \<open>Sharding and batching (lines 398-407)\<close>

text \<open>
  \<^verbatim>\<open>indices[start:stop:step]\<close> for non-negative bounds and a positive step.
\<close>

definition slice_step :: "'a list \<Rightarrow> nat \<Rightarrow> nat \<Rightarrow> nat \<Rightarrow> 'a list" where
  "slice_step xs start stop step =
     map (\<lambda>k. xs ! (start + k * step)) [0..<(min stop (length xs) - start + step - 1) div step]"

text \<open>
  The indices that \<^verbatim>\<open>DistributedSampler(dataset, shuffle=False)\<close> of line 398 yields on
  one rank. The class belongs to the tensor library, not to the repository; this is its
  \<^verbatim>\<open>__iter__\<close> for \<^verbatim>\<open>shuffle=False\<close> and the default \<^verbatim>\<open>drop_last=False\<close>:
  \<^verbatim>\<open>num_samples = ceil(len(dataset) / num_replicas)\<close>,
  \<^verbatim>\<open>total_size = num_samples * num_replicas\<close>; the list of all indices is padded to
  \<^verbatim>\<open>total_size\<close> with its own first elements (repeated as often as needed), and the
  rank takes \<^verbatim>\<open>indices[rank:total_size:num_replicas]\<close>.
\<close>

definition distributed_sampler :: "nat \<Rightarrow> nat \<Rightarrow> nat \<Rightarrow> nat list" where
  "distributed_sampler num_replicas rank n =
     (let num_samples = (n + num_replicas - 1) div num_replicas;
          total_size = num_samples * num_replicas;
          indices = [0..<n];
          padding_size = total_size - length indices;
          indices =
            (if padding_size \<le> length indices then indices @ take padding_size indices
             else indices @ take padding_size
                    (concat (replicate ((padding_size + length indices - 1) div length indices) indices)))
      in slice_step indices rank total_size num_replicas)"

text \<open>
  The shard of a rank: the distributed sampler in distributed mode, all indices in order
  (\<^verbatim>\<open>sampler=None\<close>, \<^verbatim>\<open>shuffle=False\<close>) otherwise.
\<close>

definition shard :: "bool \<Rightarrow> nat \<Rightarrow> nat \<Rightarrow> nat \<Rightarrow> nat list" where
  "shard distributed world_size rank n =
     (if distributed then distributed_sampler world_size rank n else [0..<n])"

text \<open>
  Cutting a list into pieces of \<open>n\<close> elements, the last one shorter. The piece size 0 is
  given no pieces only to make the function total: \<open>data_loader\<close> below never asks for it.
\<close>

function chunks :: "nat \<Rightarrow> 'a list \<Rightarrow> 'a list list" where
  "chunks n xs = (if n = 0 \<or> xs = [] then [] else take n xs # chunks n (drop n xs))"
  by pat_completeness auto
termination
  by (relation "measure (\<lambda>(n, xs). length xs)") auto

declare chunks.simps [simp del]

text \<open>
  Line 399: \<^verbatim>\<open>DataLoader(dataset, batch_size=..., sampler=sampler, drop_last=False)\<close>. The
  constructor raises \<^verbatim>\<open>ValueError\<close> for a batch size that is not positive (batch sizes are
  naturals here, so that is the size 0); otherwise the loader yields the shard's indices in
  batches of \<^verbatim>\<open>batch_size\<close>, the last one shorter.
\<close>

definition data_loader :: "nat \<Rightarrow> nat list \<Rightarrow> error + nat list list" where
  "data_loader batch_size indices =
     (if batch_size = 0 then Inl ValueError else Inr (chunks batch_size indices))"

section \<open>The run of the coordinating worker (lines 426-542)\<close>

text \<open>
  The collaborators of the run that are not in the source files: \<open>process\<close> is what lines
  430-436 produce for a batch of dataset indices (the data loader's fetch and collation of
  those samples followed by \<^verbatim>\<open>process_batch\<close>), and \<open>index_add\<close> is
  \<^verbatim>\<open>faiss_index.add\<close>, returning the contents of the index.
\<close>

record ('f, 'i) collaborators =
  process :: "nat list \<Rightarrow> error + ('f list \<times> metadata)"
  index_add :: "'f list \<Rightarrow> error + 'i"

text \<open>The batch loop: an exception of a batch is re-raised and ends the worker.\<close>

fun run_batches ::
  "(nat list \<Rightarrow> error + ('f list \<times> metadata)) \<Rightarrow> nat list list \<Rightarrow>
   'f list list \<times> metadata option \<Rightarrow> error + ('f list list \<times> metadata option)" where
  "run_batches proc [] acc = Inr acc"
| "run_batches proc (batch # rest) acc =
     and_then (proc batch) (\<lambda>b. run_batches proc rest (accumulate_batch acc b))"

definition worker_pass ::
  "('f, 'i) collaborators \<Rightarrow> nat \<Rightarrow> nat list \<Rightarrow> error + ('f list list \<times> metadata option)" where
  "worker_pass c batch_size indices =
     and_then (data_loader batch_size indices) (\<lambda>dataloader.
       run_batches (process c) dataloader ([], None))"

text \<open>
  \<^verbatim>\<open>all_gather_object\<close>: the logs of all ranks in rank order; the run has a result only if
  every worker reached the gather point.
\<close>

fun gather :: "(error + 'a) list \<Rightarrow> error + 'a list" where
  "gather [] = Inr []"
| "gather (w # ws) = and_then w (\<lambda>x. and_then (gather ws) (\<lambda>xs. Inr (x # xs)))"

text \<open>\<^verbatim>\<open>np.vstack\<close> of line 501 raises \<^verbatim>\<open>ValueError\<close> on an empty list of matrices.\<close>

definition vstack :: "'f list list \<Rightarrow> error + 'f list" where
  "vstack ms = (if ms = [] then Inl ValueError else Inr (concat ms))"

text \<open>
  \<^verbatim>\<open>all_metadata\<close> as it reaches line 503: in distributed mode the dictionary built at
  lines 487-494, whose \<^verbatim>\<open>'id'\<close> is a list of integers; otherwise the accumulated
  dictionary of the batch loop, whose \<^verbatim>\<open>'id'\<close> is still a tensor, or \<^verbatim>\<open>{}\<close>.
\<close>

datatype all_metadata = Sorted metadata | Accumulated "metadata option"

text \<open>Lines 454-501: the feature matrix and the metadata of the whole run.\<close>

definition global_result_set ::
  "('f, 'i) collaborators \<Rightarrow> bool \<Rightarrow> nat \<Rightarrow> nat \<Rightarrow> nat \<Rightarrow> error + ('f list \<times> all_metadata)" where
  "global_result_set c distributed world_size batch_size n =
     (if distributed then
        and_then (gather (map (\<lambda>rank. worker_pass c batch_size (shard True world_size rank n))
                            [0..<world_size])) (\<lambda>gathered.
        and_then (reconcile gathered) (\<lambda>(all_features, sorted_metadata).
          Inr (all_features, Sorted sorted_metadata)))
      else
        and_then (worker_pass c batch_size (shard False world_size 0 n)) (\<lambda>(all_features, all_metadata).
        and_then (vstack all_features) (\<lambda>all_features.
          Inr (all_features, Accumulated all_metadata))))"

text \<open>
  Lines 513-516: \<^verbatim>\<open>json.dump(all_metadata, f)\<close>. A dictionary of lists of integers and
  strings is written as it is; a tensor is not JSON serializable and raises \<^verbatim>\<open>TypeError\<close>.
  The summary's "Number of images processed" is \<^verbatim>\<open>len(all_metadata)\<close>, the number of keys
  of the dictionary.
\<close>

fun json_dump :: "all_metadata \<Rightarrow> error + metadata option" where
  "json_dump (Sorted md) = Inr (Some md)"
| "json_dump (Accumulated None) = Inr None"
| "json_dump (Accumulated (Some md)) = Inl TypeError"

fun len_dict :: "all_metadata \<Rightarrow> nat" where
  "len_dict (Sorted md) = 6"
| "len_dict (Accumulated None) = 0"
| "len_dict (Accumulated (Some md)) = 6"

text \<open>
  The three output files. The metadata file is created by \<^verbatim>\<open>open\<close> before
  \<^verbatim>\<open>json.dump\<close> runs, so a failing dump leaves an incomplete file behind.
\<close>

datatype sidecar = Complete "metadata option" | Incomplete

record summary =
  total_features :: nat
  number_of_images :: nat

record 'i artifacts =
  index_file :: "'i option"
  metadata_file :: "sidecar option"
  summary_file :: "summary option"

definition no_artifacts :: "'i artifacts" where
  "no_artifacts = \<lparr> index_file = None, metadata_file = None, summary_file = None \<rparr>"

text \<open>
  Lines 503-542 on rank 0: the outcome and the files that exist afterwards.
\<close>

definition persist ::
  "('f, 'i) collaborators \<Rightarrow> 'f list \<Rightarrow> all_metadata \<Rightarrow> (error + unit) \<times> 'i artifacts" where
  "persist c all_features all_metadata =
     (case index_add c all_features of
        Inl e \<Rightarrow> (Inl e, no_artifacts)
      | Inr idx \<Rightarrow>
          (case json_dump all_metadata of
             Inl e \<Rightarrow> (Inl e, no_artifacts\<lparr> index_file := Some idx, metadata_file := Some Incomplete \<rparr>)
           | Inr js \<Rightarrow>
               (Inr (),
                \<lparr> index_file = Some idx, metadata_file = Some (Complete js),
                  summary_file = Some \<lparr> total_features = length all_features,
                                        number_of_images = len_dict all_metadata \<rparr> \<rparr>)))"

definition run_extraction ::
  "('f, 'i) collaborators \<Rightarrow> bool \<Rightarrow> nat \<Rightarrow> nat \<Rightarrow> nat \<Rightarrow> (error + unit) \<times> 'i artifacts" where
  "run_extraction c distributed world_size batch_size n =
     (case global_result_set c distributed world_size batch_size n of
        Inl e \<Rightarrow> (Inl e, no_artifacts)
      | Inr (all_features, all_metadata) \<Rightarrow> persist c all_features all_metadata)"

text \<open>
  A dataset of four samples whose ids, by position, are 3, 4, 1, 2: with two workers the
  sampler gives worker 0 the ids 3, 1 and worker 1 the ids 4, 2. The vector of the sample
  with id k is \<open>''vk''\<close>, and the index keeps the rows it is given.
\<close>

definition dataset_ids :: "int list" where
  "dataset_ids = [3, 4, 1, 2]"

definition stub :: "int list \<Rightarrow> (string, string list) collaborators" where
  "stub ids =
     \<lparr> process = (\<lambda>batch. Inr (tag ''v'' (map (\<lambda>i. ids ! i) batch),
                               batch_metadata (map (\<lambda>i. ids ! i) batch))),
       index_add = (\<lambda>rows. Inr rows) \<rparr>"

section \<open>Model selection (lines 564-568)\<close>

text \<open>
  A model entry of the configuration file; a field that is absent or \<^verbatim>\<open>null\<close> in the file
  is \<open>None\<close>. The lookup \<^verbatim>\<open>config.models['CLIP']\<close> raises \<^verbatim>\<open>KeyError\<close> without such an
  entry.
\<close>

record ModelConfig =
  name :: "string option"
  type_model :: "string option"
  pretrained_path :: "string option"
  model_config_path :: "string option"

definition model_type :: "(string \<rightharpoonup> ModelConfig) \<Rightarrow> error + string" where
  "model_type models =
     (case models ''CLIP'' of
        None \<Rightarrow> Inl (KeyError ''CLIP'')
      | Some clip \<Rightarrow> Inr (if name clip \<noteq> Some ''None'' then ''CLIP'' else ''DINOV2''))"

definition unnamed_clip :: ModelConfig where
  "unnamed_clip =
     \<lparr> name = None, type_model = Some ''CLIP'', pretrained_path = None, model_config_path = None \<rparr>"

section \<open>Properties of reconciliation\<close>

lemma flatten_features_concat: "flatten_features g = concat (map concat g)"
proof -
  have inner: "foldl (\<lambda>flat m. flat @ m) acc ms = acc @ concat ms" for acc :: "'a list" and ms
    by (induction ms arbitrary: acc) auto
  have "foldl (\<lambda>flat proc. foldl (\<lambda>flat m. flat @ m) flat proc) acc g = acc @ concat (map concat g)"
    for acc :: "'a list"
    by (induction g arbitrary: acc) (auto simp: inner)
  then show ?thesis by (simp add: flatten_features_def)
qed

lemma flatten_metadata_Some:
  "flatten_metadata (Some flat) (map Some mds) = Inr (Some
     \<lparr> id_col = concat (rev (map id_col mds)) @ id_col flat,
       object_name = object_name flat @ concat (map object_name mds),
       data_dir = data_dir flat @ concat (map data_dir mds),
       image_path = image_path flat @ concat (map image_path mds),
       mask_path = mask_path flat @ concat (map mask_path mds),
       dataset_type = dataset_type flat @ concat (map dataset_type mds) \<rparr>)"
  by (induction mds arbitrary: flat) auto

lemma map_sort_key: "map f (sort_key f xs) = sort (map f xs)"
  by (rule properties_for_sort[symmetric]) auto

lemma sorted_indices_bound: "list_all (\<lambda>i. i < length ids) (sorted_indices ids)"
  by (auto simp: sorted_indices_def list_all_iff in_set_enumerate_eq)

lemma length_sorted_indices: "length (sorted_indices ids) = length ids"
  by (simp add: sorted_indices_def)

lemma ids_sorted_indices: "map (\<lambda>i. ids ! i) (sorted_indices ids) = sort ids"
proof -
  have "map (\<lambda>i. ids ! i) (map fst ps) = map snd ps" if "set ps \<subseteq> set (enumerate 0 ids)" for ps
    using that by (induction ps) (auto simp: in_set_enumerate_eq)
  from this[of "sort_key snd (enumerate 0 ids)"]
  show ?thesis by (simp add: sorted_indices_def map_sort_key)
qed

lemma take_rows_ok: "length ids \<le> length xs \<Longrightarrow> take_rows xs (sorted_indices ids) = Inr (map (\<lambda>i. xs ! i) (sorted_indices ids))"
  using sorted_indices_bound[of ids] by (auto simp: take_rows_def list_all_iff)

lemma flatten_metadata_first:
  "flatten_metadata None (map Some (m # mds)) = Inr (Some
     \<lparr> id_col = concat (rev (map id_col mds)) @ id_col m,
       object_name = concat (map object_name (m # mds)),
       data_dir = concat (map data_dir (m # mds)),
       image_path = concat (map image_path (m # mds)),
       mask_path = concat (map mask_path (m # mds)),
       dataset_type = concat (map dataset_type (m # mds)) \<rparr>)"
  by (simp add: flatten_metadata_Some)

lemma length_concat_eq:
  "\<forall>x \<in> set xs. length (f x) = length (g x) \<Longrightarrow> length (concat (map f xs)) = length (concat (map g xs))"
  by (induction xs) auto

lemma sort_cong_mset: "mset xs = mset ys \<Longrightarrow> sort xs = sort ys"
  by (rule properties_for_sort) (simp_all)

lemma canonicalize_aligned:
  assumes "length (id_col md) \<le> length fs"
    and "length (object_name md) = length (id_col md)"
    and "length (data_dir md) = length (id_col md)"
    and "length (image_path md) = length (id_col md)"
    and "length (mask_path md) = length (id_col md)"
    and "length (dataset_type md) = length (id_col md)"
  shows "\<exists>out. canonicalize fs (Some md) =
           Inr (map (\<lambda>i. fs ! i) (sorted_indices (id_col md)), out) \<and>
           id_col out = sort (id_col md) \<and>
           object_name out = map (\<lambda>i. object_name md ! i) (sorted_indices (id_col md))"
  using assms by (simp add: canonicalize_def Let_def take_rows_ok ids_sorted_indices)

lemma aligned_SomeD: "aligned_log w \<Longrightarrow> \<exists>md. snd w = Some md"
  by (cases "snd w") (simp_all add: aligned_log_def)

lemma aligned_snd: "list_all aligned_log g \<Longrightarrow> map snd g = map Some (map (\<lambda>w. the (snd w)) g)"
proof (induction g)
  case Nil then show ?case by simp
next
  case (Cons w g)
  then obtain md where "snd w = Some md" using aligned_SomeD[of w] by auto
  with Cons show ?case by simp
qed

lemma aligned_ids: "list_all aligned_log g \<Longrightarrow> gathered_ids g = concat (map id_col (map (\<lambda>w. the (snd w)) g))"
proof (induction g)
  case Nil then show ?case by (simp add: gathered_ids_def)
next
  case (Cons w g)
  then obtain md where "snd w = Some md" using aligned_SomeD[of w] by auto
  with Cons show ?case by (simp add: gathered_ids_def)
qed

lemma aligned_features:
  "list_all aligned_log g \<Longrightarrow>
   length (flatten_features (map fst g)) = length (concat (map id_col (map (\<lambda>w. the (snd w)) g)))"
proof (induction g)
  case Nil then show ?case by (simp add: flatten_features_concat)
next
  case (Cons w g)
  then obtain md where md: "snd w = Some md" using aligned_SomeD[of w] by auto
  from Cons.prems have "length (concat (fst w)) = length (id_col md)"
    by (simp add: aligned_log_def md)
  with Cons md show ?case by (simp add: flatten_features_concat)
qed


lemma aligned_cols:
  assumes "list_all aligned_log g" and "m \<in> set (map (\<lambda>w. the (snd w)) g)"
  shows "length (object_name m) = length (id_col m) \<and> length (data_dir m) = length (id_col m) \<and>
      length (image_path m) = length (id_col m) \<and> length (mask_path m) = length (id_col m) \<and>
      length (dataset_type m) = length (id_col m)"
proof -
  from assms(2) obtain w where w: "w \<in> set g" and m: "m = the (snd w)" by auto
  from assms(1) w have a: "aligned_log w" by (simp add: list_all_iff)
  then obtain md where md: "snd w = Some md" using aligned_SomeD by blast
  from a show ?thesis by (simp add: aligned_log_def md m)
qed

lemma mset_rev_concat: "mset (concat (rev xss) @ ys) = mset (concat (ys # xss))"
  by (induction xss) simp_all

subsection \<open>Row-major indexing\<close>

lemma length_concat_upt: "(\<And>i. i < n \<Longrightarrow> length (f i) = m) \<Longrightarrow> length (concat (map f [0..<n])) = n * m"
  by (induction n) auto

lemma nth_concat_upt:
  "(\<And>i. i < n \<Longrightarrow> length (f i) = m) \<Longrightarrow> i < n \<Longrightarrow> r < m \<Longrightarrow> concat (map f [0..<n]) ! (i * m + r) = f i ! r"
proof (induction n)
  case 0 then show ?case by simp
next
  case (Suc n)
  have len: "length (concat (map f [0..<n])) = n * m"
    using Suc.prems(1) by (intro length_concat_upt) simp
  show ?case
  proof (cases "i < n")
    case True
    have "i * m + r < n * m"
    proof -
      have "i * m + r < i * m + m" using Suc.prems(3) by simp
      also have "\<dots> = (Suc i) * m" by simp
      also have "\<dots> \<le> n * m" using True by (intro mult_le_mono1) simp
      finally show ?thesis .
    qed
    then show ?thesis using Suc True by (simp add: nth_append len)
  next
    case False
    with Suc.prems(2) have "i = n" by simp
    then show ?thesis by (simp add: nth_append len)
  qed
qed


lemma offset_bound: "i < (n::nat) \<Longrightarrow> r < m \<Longrightarrow> i * m + r < n * m"
proof -
  assume a: "i < n" "r < m"
  have "i * m + r < i * m + m" using a by simp
  also have "\<dots> = (Suc i) * m" by simp
  also have "\<dots> \<le> n * m" using a by (intro mult_le_mono1) simp
  finally show ?thesis .
qed

lemma length_build4: "length (data (build4 b c h w f)) = b * c * h * w"
proof -
  have 1: "length (concat (map (\<lambda>k. map (\<lambda>l. f i j k l) [0..<w]) [0..<h])) = h * w" for i j
    by (rule length_concat_upt) simp
  have 2: "length (concat (map (\<lambda>j. concat (map (\<lambda>k. map (\<lambda>l. f i j k l) [0..<w]) [0..<h])) [0..<c]))
      = c * (h * w)" for i
    by (rule length_concat_upt) (rule 1)
  have "length (data (build4 b c h w f)) = b * (c * (h * w))"
    unfolding build4_def by (simp only: tensor4.simps, rule length_concat_upt) (rule 2)
  then show ?thesis by (simp add: mult.assoc)
qed

lemma at4_build4:
  assumes "i < b" "j < c" "k < h" "l < w"
  shows "at4 c h w (data (build4 b c h w f)) i j k l = f i j k l"
proof -
  let ?row = "\<lambda>i j k. map (\<lambda>l. f i j k l) [0..<w]"
  let ?plane = "\<lambda>i j. concat (map (?row i j) [0..<h])"
  let ?img = "\<lambda>i. concat (map (?plane i) [0..<c])"
  have 1: "length (?plane i j) = h * w" for i j
    by (rule length_concat_upt) simp
  have 2: "length (?img i) = c * (h * w)" for i
    by (rule length_concat_upt) (rule 1)
  have kl: "k * w + l < h * w" using assms by (intro offset_bound)
  have jkl: "j * (h * w) + (k * w + l) < c * (h * w)" using assms kl by (intro offset_bound)
  have idx: "((i * c + j) * h + k) * w + l = i * (c * (h * w)) + (j * (h * w) + (k * w + l))"
    by (simp add: algebra_simps)
  have "concat (map ?img [0..<b]) ! (i * (c * (h * w)) + (j * (h * w) + (k * w + l)))
      = ?img i ! (j * (h * w) + (k * w + l))"
    by (rule nth_concat_upt) (use 2 assms jkl in auto)
  also have "\<dots> = ?plane i j ! (k * w + l)"
    by (rule nth_concat_upt) (use 1 assms kl in auto)
  also have "\<dots> = ?row i j k ! l"
    by (rule nth_concat_upt) (use assms in auto)
  also have "\<dots> = f i j k l" using assms by simp
  finally show ?thesis
    by (simp add: at4_def build4_def idx)
qed

lemma bidx_less: "i < n \<Longrightarrow> bidx n i = i"
  by (auto simp: bidx_def)

lemma bdim_same: "bdim n n = Some n"
  by (simp add: bdim_def)

lemma mul_same_shape:
  assumes "size0 y = size0 x" "size1 y = size1 x" "size2 y = size2 x" "size3 y = size3 x"
  shows "mul_broadcast x y = Inr (build4 (size0 x) (size1 x) (size2 x) (size3 x)
           (\<lambda>i j k l. bat4 x i j k l * bat4 y i j k l))"
  by (simp add: mul_broadcast_def assms bdim_same)

lemma bat4_inside:
  "i < size0 t \<Longrightarrow> j < size1 t \<Longrightarrow> k < size2 t \<Longrightarrow> l < size3 t \<Longrightarrow>
   bat4 t i j k l = at4 (size1 t) (size2 t) (size3 t) (data t) i j k l"
  by (simp add: bat4_def bidx_less)

lemmas scenario_defs =
  worker_log_def accumulate_batch_def batch_metadata_def tag_def flatten_features_def
  global_flatten_def reconcile_def canonicalize_def take_rows_def sorted_indices_def

subsection \<open>Claim C1\<close>

text \<open>
  C1: after reconciliation the id column is strictly increasing and row i carries the vector
  produced for the sample with the i-th smallest id; for the ids 3, 1 on worker 0 and 4, 2 on
  worker 1 the id column is 1, 2, 3, 4 and each row's vector is the one produced for that id.
  The code does not do this. On the scenario the id column is 1, 2, 3, 4, but the rows carry
  the vectors of the samples 2, 1, 4, 3: line 474 puts each later worker's ids in front of
  the ids collected so far, while the features and the other columns are appended, so the
  sort permutation is computed from an id column that is not aligned with the rows.
\<close>

theorem reconcile_scenario_rows:
  "reconcile scenario =
     Inr ([''v2'', ''v1'', ''v4'', ''v3''],
          \<lparr> id_col = [1, 2, 3, 4],
            object_name = [''obj2'', ''obj1'', ''obj4'', ''obj3''],
            data_dir = [''dir2'', ''dir1'', ''dir4'', ''dir3''],
            image_path = [''img2'', ''img1'', ''img4'', ''img3''],
            mask_path = [''msk2'', ''msk1'', ''msk4'', ''msk3''],
            dataset_type = [''typ2'', ''typ1'', ''typ4'', ''typ3''] \<rparr>)"
  by (simp add: scenario_def scenario_defs)

subsection \<open>Claim C2\<close>

text \<open>
  C2: global flatten concatenates the per-worker feature lists and metadata tables in rank
  order, so that feature i and every metadata field at position i, the id included, belong to
  the same sample. The code does not do this for the id: on the scenario the features and the
  five string columns are in rank order (3, 1, 4, 2) while the id column is 4, 2, 3, 1.
\<close>

theorem global_flatten_scenario:
  "global_flatten scenario =
     Inr ([''v3'', ''v1'', ''v4'', ''v2''],
          Some \<lparr> id_col = [4, 2, 3, 1],
            object_name = [''obj3'', ''obj1'', ''obj4'', ''obj2''],
            data_dir = [''dir3'', ''dir1'', ''dir4'', ''dir2''],
            image_path = [''img3'', ''img1'', ''img4'', ''img2''],
            mask_path = [''msk3'', ''msk1'', ''msk4'', ''msk2''],
            dataset_type = [''typ3'', ''typ1'', ''typ4'', ''typ2''] \<rparr>)"
  by (simp add: scenario_def scenario_defs)

subsection \<open>Claim C3\<close>

text \<open>
  C3 as stated: duplicate or missing ids make reconciliation fail. The code has no such
  check: with the sample 0 in two shards, reconciliation returns a result in which the id 0
  stands twice.
\<close>

theorem reconcile_duplicates_counterexample:
  "\<not> distinct (gathered_ids padded_logs) \<and>
   reconcile padded_logs =
     Inr ([''v2'', ''v1'', ''v0'', ''v0''],
          \<lparr> id_col = [0, 0, 1, 2],
            object_name = [''obj2'', ''obj1'', ''obj0'', ''obj0''],
            data_dir = [''dir2'', ''dir1'', ''dir0'', ''dir0''],
            image_path = [''img2'', ''img1'', ''img0'', ''img0''],
            mask_path = [''msk2'', ''msk1'', ''msk0'', ''msk0''],
            dataset_type = [''typ2'', ''typ1'', ''typ0'', ''typ0''] \<rparr>)"
  by (simp add: padded_logs_def gathered_ids_def scenario_defs)

text \<open>
  C3 as amended: canonicalization checks nothing about the ids. Whenever at least one worker
  log was gathered and every gathered log is row-aligned, reconciliation succeeds; its id
  column is the sorted list of all gathered ids, so every id, a duplicate included, is kept,
  and the feature matrix has one row per gathered id.
\<close>

theorem reconcile_keeps_duplicates:
  assumes ne: "gathered \<noteq> []" and al: "list_all aligned_log gathered"
  shows "\<exists>fs md. reconcile gathered = Inr (fs, md) \<and>
           id_col md = sort (gathered_ids gathered) \<and>
           mset (id_col md) = mset (gathered_ids gathered) \<and>
           length fs = length (gathered_ids gathered)"
proof -
  define mds where "mds = map (\<lambda>w. the (snd w)) gathered"
  define ff where "ff = flatten_features (map fst gathered)"
  have some: "map snd gathered = map Some mds"
    unfolding mds_def by (rule aligned_snd[OF al])
  have ids: "gathered_ids gathered = concat (map id_col mds)"
    unfolding mds_def by (rule aligned_ids[OF al])
  have len_f: "length ff = length (concat (map id_col mds))"
    unfolding mds_def ff_def by (rule aligned_features[OF al])
  have cols: "length (object_name m) = length (id_col m) \<and> length (data_dir m) = length (id_col m) \<and>
      length (image_path m) = length (id_col m) \<and> length (mask_path m) = length (id_col m) \<and>
      length (dataset_type m) = length (id_col m)" if "m \<in> set mds" for m
    using aligned_cols[OF al] that unfolding mds_def by blast
  from ne obtain m rest where mds: "mds = m # rest"
    by (cases gathered) (simp_all add: mds_def)
  define flat where "flat =
     \<lparr> id_col = concat (rev (map id_col rest)) @ id_col m,
       object_name = concat (map object_name (m # rest)),
       data_dir = concat (map data_dir (m # rest)),
       image_path = concat (map image_path (m # rest)),
       mask_path = concat (map mask_path (m # rest)),
       dataset_type = concat (map dataset_type (m # rest)) \<rparr>"
  have fm: "flatten_metadata None (map snd gathered) = Inr (Some flat)"
    unfolding some mds flat_def by (rule flatten_metadata_first)
  have ms: "mset (id_col flat) = mset (concat (map id_col mds))"
    unfolding mds flat_def using mset_rev_concat[of "map id_col rest" "id_col m"] by simp
  have len_ids: "length (id_col flat) = length (concat (map id_col mds))"
    using ms by (rule mset_eq_length)
  have l2: "length (object_name flat) = length (id_col flat)"
    unfolding len_ids using cols by (simp add: flat_def mds[symmetric] length_concat_eq)
  have l3: "length (data_dir flat) = length (id_col flat)"
    unfolding len_ids using cols by (simp add: flat_def mds[symmetric] length_concat_eq)
  have l4: "length (image_path flat) = length (id_col flat)"
    unfolding len_ids using cols by (simp add: flat_def mds[symmetric] length_concat_eq)
  have l5: "length (mask_path flat) = length (id_col flat)"
    unfolding len_ids using cols by (simp add: flat_def mds[symmetric] length_concat_eq)
  have l6: "length (dataset_type flat) = length (id_col flat)"
    unfolding len_ids using cols by (simp add: flat_def mds[symmetric] length_concat_eq)
  have l1: "length (id_col flat) \<le> length ff"
    by (simp only: len_ids len_f)
  from canonicalize_aligned[OF l1 l2 l3 l4 l5 l6]
  obtain out where c: "canonicalize ff (Some flat) =
      Inr (map (\<lambda>i. ff ! i) (sorted_indices (id_col flat)), out)"
    and o: "id_col out = sort (id_col flat)" by blast
  have s: "sort (id_col flat) = sort (gathered_ids gathered)"
    unfolding ids by (rule sort_cong_mset) (rule ms)
  have r: "reconcile gathered = Inr (map (\<lambda>i. ff ! i) (sorted_indices (id_col flat)), out)"
    by (simp add: reconcile_def global_flatten_def fm c flip: ff_def)
  have "id_col out = sort (gathered_ids gathered)"
    by (simp only: o s)
  moreover have "mset (id_col out) = mset (gathered_ids gathered)"
    by (simp add: o s)
  moreover have "length (map (\<lambda>i. ff ! i) (sorted_indices (id_col flat))) = length (gathered_ids gathered)"
    by (simp add: length_sorted_indices len_ids ids)
  ultimately show ?thesis using r by blast
qed

theorem reconcile_keeps_duplicates_witness:
  "padded_logs \<noteq> [] \<and> list_all aligned_log padded_logs \<and>
   (\<exists>fs md. reconcile padded_logs = Inr (fs, md) \<and>
      id_col md = sort (gathered_ids padded_logs) \<and>
      mset (id_col md) = mset (gathered_ids padded_logs) \<and>
      length fs = length (gathered_ids padded_logs))"
proof -
  have ne: "padded_logs \<noteq> []"
    by (simp add: padded_logs_def)
  have al: "list_all aligned_log padded_logs"
    by (simp add: padded_logs_def aligned_log_def worker_log_def accumulate_batch_def
        batch_metadata_def tag_def)
  show ?thesis
    using ne al reconcile_keeps_duplicates [OF ne al] by blast
qed

section \<open>Properties of mask composition\<close>

lemma expand_unit_channel:
  assumes "shape t = [b, 1, h, w]"
  shows "\<exists>e. expand_channels t C = Inr e \<and> size0 e = b \<and> size1 e = C \<and> size2 e = h \<and> size3 e = w \<and>
           (\<forall>i<b. \<forall>j<C. \<forall>k<h. \<forall>l<w. at4 C h w (data e) i j k l = at4 1 h w (elems t) i 0 k l)"
proof (cases "C = 1")
  case True
  then show ?thesis using assms by (simp add: expand_channels_def)
next
  case False
  then have "expand_channels t C = Inr (build4 b C h w (\<lambda>i j k l. at4 1 h w (elems t) i 0 k l))"
    using assms by (simp add: expand_channels_def)
  then show ?thesis
    by (simp add: at4_build4) (simp add: build4_def)
qed

lemma binary_shape: "shape (prepare_binary_mask t thr) = shape t"
  by (simp add: prepare_binary_mask_def)

lemma binary_nth:
  "n < length (elems t) \<Longrightarrow>
   elems (prepare_binary_mask t thr) ! n = (if elems t ! n > thr then 1 else 0)"
  by (simp add: prepare_binary_mask_def)

lemma masked_unit_channel:
  assumes wf: "wf_tensor4 images"
    and shp: "shape bm = [size0 images, 1, size2 images, size3 images]"
  shows "\<exists>out. and_then (expand_channels bm (size1 images)) (mul_broadcast images) = Inr out \<and>
      size0 out = size0 images \<and> size1 out = size1 images \<and>
      size2 out = size2 images \<and> size3 out = size3 images \<and> wf_tensor4 out \<and>
      (\<forall>i<size0 images. \<forall>j<size1 images. \<forall>k<size2 images. \<forall>l<size3 images.
         at4 (size1 images) (size2 images) (size3 images) (data out) i j k l =
         at4 (size1 images) (size2 images) (size3 images) (data images) i j k l *
         at4 1 (size2 images) (size3 images) (elems bm) i 0 k l)"
proof -
  from expand_unit_channel[OF shp, of "size1 images"]
  obtain e where e: "expand_channels bm (size1 images) = Inr e"
    and s: "size0 e = size0 images" "size1 e = size1 images" "size2 e = size2 images" "size3 e = size3 images"
    and v: "\<And>i j k l. i < size0 images \<Longrightarrow> j < size1 images \<Longrightarrow> k < size2 images \<Longrightarrow> l < size3 images \<Longrightarrow>
        at4 (size1 images) (size2 images) (size3 images) (data e) i j k l
        = at4 1 (size2 images) (size3 images) (elems bm) i 0 k l"
    by blast
  let ?out = "build4 (size0 images) (size1 images) (size2 images) (size3 images)
           (\<lambda>i j k l. bat4 images i j k l * bat4 e i j k l)"
  have m: "mul_broadcast images e = Inr ?out"
    by (rule mul_same_shape) (rule s)+
  have r: "and_then (expand_channels bm (size1 images)) (mul_broadcast images) = Inr ?out"
    by (simp add: e m)
  have sz: "size0 ?out = size0 images \<and> size1 ?out = size1 images \<and>
      size2 ?out = size2 images \<and> size3 ?out = size3 images"
    by (simp add: build4_def)
  have w: "wf_tensor4 ?out"
    unfolding wf_tensor4_def length_build4 by (simp add: build4_def)
  have el: "at4 (size1 images) (size2 images) (size3 images) (data ?out) i j k l =
         at4 (size1 images) (size2 images) (size3 images) (data images) i j k l *
         at4 1 (size2 images) (size3 images) (elems bm) i 0 k l"
    if "i < size0 images" "j < size1 images" "k < size2 images" "l < size3 images" for i j k l
    using that by (simp add: at4_build4 bat4_inside s v)
  show ?thesis
    using r sz w el by blast
qed


lemma masked_images_unfold:
  assumes "shape masks = [b, 1, h, w] \<or> shape masks = [b, h, w]"
  shows "\<exists>bm. shape bm = [b, 1, h, w] \<and> elems bm = elems (prepare_binary_mask masks 0.5) \<and>
     masked_images images masks =
       and_then (expand_channels bm (size1 images)) (mul_broadcast images)"
proof -
  from assms show ?thesis
  proof
    assume a: "shape masks = [b, 1, h, w]"
    have "masked_images images masks =
       and_then (expand_channels (prepare_binary_mask masks 0.5) (size1 images)) (mul_broadcast images)"
      by (simp add: masked_images_def Let_def binary_shape a)
    then show ?thesis using a
      by (intro exI[of _ "prepare_binary_mask masks 0.5"]) (simp add: binary_shape)
  next
    assume a: "shape masks = [b, h, w]"
    let ?bm = "(prepare_binary_mask masks 0.5)\<lparr> shape := [b, 1, h, w] \<rparr>"
    have "masked_images images masks =
       and_then (expand_channels ?bm (size1 images)) (mul_broadcast images)"
      by (simp add: masked_images_def Let_def binary_shape a unsqueeze1_def)
    moreover have "shape ?bm = [b, 1, h, w]" "elems ?bm = elems (prepare_binary_mask masks 0.5)"
      by simp_all
    ultimately show ?thesis
      by (intro exI[of _ ?bm]) simp
  qed
qed

subsection \<open>Claim C5\<close>

text \<open>
  C5: binarization maps an element to 1 exactly when it is strictly greater than the
  threshold and to 0 otherwise, so that 0.2, 0.6, 0.5, 0.9 at the default threshold 0.5 give
  0, 1, 0, 1; and for a well-formed image batch of sizes (B, C, H, W) and a well-formed mask
  batch of shape (B, 1, H, W) or (B, H, W) the composition succeeds, has the sizes of the
  images, and its element at (i, j, k, l) is the image's element there times the binarized
  mask element at (i, 0, k, l): the mask is broadcast across the channel axis.
\<close>

theorem mask_composition:
  assumes wf: "wf_tensor4 images" and wfm: "wf_tensor masks"
    and shp: "shape masks = [size0 images, 1, size2 images, size3 images] \<or>
              shape masks = [size0 images, size2 images, size3 images]"
  shows "elems (prepare_binary_mask \<lparr> shape = [4], elems = [0.2, 0.6, 0.5, 0.9] \<rparr> 0.5) = [0, 1, 0, 1] \<and>
    shape (prepare_binary_mask t thr) = shape t \<and>
    (\<forall>n<length (elems t).
        elems (prepare_binary_mask t thr) ! n = (if elems t ! n > thr then 1 else 0)) \<and>
    (\<exists>out. masked_images images masks = Inr out \<and>
      size0 out = size0 images \<and> size1 out = size1 images \<and>
      size2 out = size2 images \<and> size3 out = size3 images \<and> wf_tensor4 out \<and>
      (\<forall>i<size0 images. \<forall>j<size1 images. \<forall>k<size2 images. \<forall>l<size3 images.
         at4 (size1 images) (size2 images) (size3 images) (data out) i j k l =
         at4 (size1 images) (size2 images) (size3 images) (data images) i j k l *
         (if at4 1 (size2 images) (size3 images) (elems masks) i 0 k l > 0.5 then 1 else 0)))"
proof -
  let ?B = "size0 images" and ?C = "size1 images" and ?H = "size2 images" and ?W = "size3 images"
  have scen: "elems (prepare_binary_mask \<lparr> shape = [4], elems = [0.2, 0.6, 0.5, 0.9] \<rparr> 0.5) = [0, 1, 0, 1]"
    by (simp add: prepare_binary_mask_def)
  have nth: "\<forall>n<length (elems t).
        elems (prepare_binary_mask t thr) ! n = (if elems t ! n > thr then 1 else 0)"
    by (simp add: binary_nth)
  from masked_images_unfold[OF shp, of images]
  obtain bm where bm: "shape bm = [?B, 1, ?H, ?W]"
    and el: "elems bm = elems (prepare_binary_mask masks 0.5)"
    and mi: "masked_images images masks = and_then (expand_channels bm ?C) (mul_broadcast images)"
    by blast
  from masked_unit_channel[OF wf bm]
  obtain out where out: "and_then (expand_channels bm ?C) (mul_broadcast images) = Inr out"
    and sz: "size0 out = ?B" "size1 out = ?C" "size2 out = ?H" "size3 out = ?W" "wf_tensor4 out"
    and v: "\<And>i j k l. i < ?B \<Longrightarrow> j < ?C \<Longrightarrow> k < ?H \<Longrightarrow> l < ?W \<Longrightarrow>
         at4 ?C ?H ?W (data out) i j k l =
         at4 ?C ?H ?W (data images) i j k l * at4 1 ?H ?W (elems bm) i 0 k l"
    by blast
  have len: "length (elems masks) = ?B * ?H * ?W"
    using wfm shp by (auto simp: wf_tensor_def)
  have b: "at4 1 ?H ?W (elems bm) i 0 k l =
      (if at4 1 ?H ?W (elems masks) i 0 k l > 0.5 then 1 else 0)"
    if "i < ?B" "k < ?H" "l < ?W" for i k l
  proof -
    have "i * ?H + k < ?B * ?H" using that by (intro offset_bound)
    then have "(i * ?H + k) * ?W + l < ?B * ?H * ?W" using that by (intro offset_bound)
    then show ?thesis
      by (simp add: at4_def el binary_nth len)
  qed
  have all: "\<forall>i<?B. \<forall>j<?C. \<forall>k<?H. \<forall>l<?W.
         at4 ?C ?H ?W (data out) i j k l =
         at4 ?C ?H ?W (data images) i j k l *
         (if at4 1 ?H ?W (elems masks) i 0 k l > 0.5 then 1 else 0)"
    using v b by simp
  have res: "masked_images images masks = Inr out"
    by (simp only: mi out)
  have ex: "\<exists>out. masked_images images masks = Inr out \<and>
      size0 out = ?B \<and> size1 out = ?C \<and> size2 out = ?H \<and> size3 out = ?W \<and> wf_tensor4 out \<and>
      (\<forall>i<?B. \<forall>j<?C. \<forall>k<?H. \<forall>l<?W.
         at4 ?C ?H ?W (data out) i j k l =
         at4 ?C ?H ?W (data images) i j k l *
         (if at4 1 ?H ?W (elems masks) i 0 k l > 0.5 then 1 else 0))"
    using res sz all by (intro exI[of _ out] conjI)
  show ?thesis
    using scen nth ex binary_shape[of t thr] by (intro conjI)
qed

theorem mask_composition_witness:
  "wf_tensor4 images2 \<and> wf_tensor masks2 \<and>
   (shape masks2 = [size0 images2, 1, size2 images2, size3 images2] \<or>
    shape masks2 = [size0 images2, size2 images2, size3 images2]) \<and>
   (\<exists>out. masked_images images2 masks2 = Inr out \<and> size0 out = 2 \<and> size1 out = 2 \<and>
      size2 out = 1 \<and> size3 out = 2 \<and> wf_tensor4 out \<and>
      at4 2 1 2 (data out) 1 1 0 1 = 8 \<and> at4 2 1 2 (data out) 1 1 0 0 = 0)"
proof -
  have wf: "wf_tensor4 images2"
    by (simp add: images2_def wf_tensor4_def)
  have wfm: "wf_tensor masks2"
    by (simp add: masks2_def wf_tensor_def)
  have shp: "shape masks2 = [size0 images2, 1, size2 images2, size3 images2] \<or>
      shape masks2 = [size0 images2, size2 images2, size3 images2]"
    by (simp add: images2_def masks2_def)
  from mask_composition [OF wf wfm shp]
  obtain out where out: "masked_images images2 masks2 = Inr out"
    and sz: "size0 out = size0 images2" "size1 out = size1 images2"
      "size2 out = size2 images2" "size3 out = size3 images2" "wf_tensor4 out"
    and v: "\<forall>i<size0 images2. \<forall>j<size1 images2. \<forall>k<size2 images2. \<forall>l<size3 images2.
         at4 (size1 images2) (size2 images2) (size3 images2) (data out) i j k l =
         at4 (size1 images2) (size2 images2) (size3 images2) (data images2) i j k l *
         (if at4 1 (size2 images2) (size3 images2) (elems masks2) i 0 k l > 0.5 then 1 else 0)"
    by blast
  have s: "size0 images2 = 2" "size1 images2 = 2" "size2 images2 = 1" "size3 images2 = 2"
    by (simp_all add: images2_def)
  have a: "at4 2 1 2 (data out) 1 1 0 1 = 8"
    using v [unfolded s, rule_format, of 1 1 0 1]
    by (simp add: images2_def masks2_def at4_def)
  have b: "at4 2 1 2 (data out) 1 1 0 0 = 0"
    using v [unfolded s, rule_format, of 1 1 0 0]
    by (simp add: images2_def masks2_def at4_def)
  show ?thesis
    using wf wfm shp out sz a b unfolding s by blast
qed

lemma bdim_mismatch: "m \<noteq> n \<Longrightarrow> m \<noteq> 1 \<Longrightarrow> n \<noteq> 1 \<Longrightarrow> bdim m n = None"
  by (simp add: bdim_def)

lemma mul_mismatch: "bdim (size0 x) (size0 y) = None \<Longrightarrow> mul_broadcast x y = Inl RuntimeError"
  by (simp add: mul_broadcast_def)

lemma expand_cases:
  "shape t = b # rest \<Longrightarrow>
   expand_channels t C = Inl RuntimeError \<or> (\<exists>e. expand_channels t C = Inr e \<and> size0 e = b)"
  by (auto simp: expand_channels_def build4_def split: list.splits)

lemma expand_then_mul_mismatch:
  assumes "shape t = b # rest" and "bdim (size0 images) b = None"
  shows "and_then (expand_channels t (size1 images)) (mul_broadcast images) = Inl RuntimeError"
proof -
  from expand_cases[OF assms(1), of "size1 images"] show ?thesis
  proof
    assume "expand_channels t (size1 images) = Inl RuntimeError"
    then show ?thesis by simp
  next
    assume "\<exists>e. expand_channels t (size1 images) = Inr e \<and> size0 e = b"
    then obtain e where e: "expand_channels t (size1 images) = Inr e" "size0 e = b" by blast
    then have "mul_broadcast images e = Inl RuntimeError"
      using assms(2) by (intro mul_mismatch) simp
    with e show ?thesis by simp
  qed
qed

lemma mismatch_raises:
  assumes shp: "shape masks = b # rest"
    and ne: "b \<noteq> size0 images" and b1: "b \<noteq> 1" and i1: "size0 images \<noteq> 1"
  shows "masked_images images masks = Inl RuntimeError"
proof -
  let ?bm = "prepare_binary_mask masks 0.5"
  have bd: "bdim (size0 images) b = None"
    using ne b1 i1 by (intro bdim_mismatch) auto
  show ?thesis
  proof (cases "length (shape masks) < 4")
    case True
    have "masked_images images masks =
        and_then (expand_channels (?bm\<lparr> shape := b # 1 # rest \<rparr>) (size1 images)) (mul_broadcast images)"
      using True by (simp add: masked_images_def Let_def binary_shape unsqueeze1_def shp)
    also have "\<dots> = Inl RuntimeError"
      by (rule expand_then_mul_mismatch[OF _ bd]) simp
    finally show ?thesis .
  next
    case False
    then have "masked_images images masks =
        and_then (expand_channels ?bm (size1 images)) (mul_broadcast images)"
      by (simp add: masked_images_def Let_def binary_shape)
    also have "\<dots> = Inl RuntimeError"
      by (rule expand_then_mul_mismatch[OF _ bd]) (simp add: binary_shape shp)
    finally show ?thesis .
  qed
qed

lemma bdim_one: "b = 1 \<or> B = 1 \<Longrightarrow> bdim B b = Some (if b = 1 then B else b)"
  by (auto simp: bdim_def)

lemma bidx_batch: "b = 1 \<or> B = 1 \<Longrightarrow> i < (if b = 1 then B else b) \<Longrightarrow> bidx b i < b"
  by (auto simp: bidx_def)

lemma mul_batch_broadcast:
  assumes "size1 y = size1 x" "size2 y = size2 x" "size3 y = size3 x"
    and "bdim (size0 x) (size0 y) = Some n"
  shows "mul_broadcast x y = Inr (build4 n (size1 x) (size2 x) (size3 x)
           (\<lambda>i j k l. bat4 x i j k l * bat4 y i j k l))"
  by (simp add: mul_broadcast_def assms bdim_same)

lemma bat4_batch:
  "j < size1 t \<Longrightarrow> k < size2 t \<Longrightarrow> l < size3 t \<Longrightarrow>
   bat4 t i j k l = at4 (size1 t) (size2 t) (size3 t) (data t) (bidx (size0 t) i) j k l"
  by (simp add: bat4_def bidx_less)

lemma masked_batch_broadcast:
  assumes shp: "shape bm = [b, 1, size2 images, size3 images]"
    and one: "b = 1 \<or> size0 images = 1"
  shows "\<exists>out. and_then (expand_channels bm (size1 images)) (mul_broadcast images) = Inr out \<and>
      size0 out = (if b = 1 then size0 images else b) \<and> size1 out = size1 images \<and>
      size2 out = size2 images \<and> size3 out = size3 images \<and> wf_tensor4 out \<and>
      (\<forall>i<(if b = 1 then size0 images else b). \<forall>j<size1 images. \<forall>k<size2 images. \<forall>l<size3 images.
         at4 (size1 images) (size2 images) (size3 images) (data out) i j k l =
         at4 (size1 images) (size2 images) (size3 images) (data images) (bidx (size0 images) i) j k l *
         at4 1 (size2 images) (size3 images) (elems bm) (bidx b i) 0 k l)"
proof -
  let ?n = "if b = 1 then size0 images else b"
  from expand_unit_channel[OF shp, of "size1 images"]
  obtain e where e: "expand_channels bm (size1 images) = Inr e"
    and s0: "size0 e = b"
    and s: "size1 e = size1 images" "size2 e = size2 images" "size3 e = size3 images"
    and v: "\<And>i j k l. i < b \<Longrightarrow> j < size1 images \<Longrightarrow> k < size2 images \<Longrightarrow> l < size3 images \<Longrightarrow>
        at4 (size1 images) (size2 images) (size3 images) (data e) i j k l
        = at4 1 (size2 images) (size3 images) (elems bm) i 0 k l"
    by blast
  let ?out = "build4 ?n (size1 images) (size2 images) (size3 images)
           (\<lambda>i j k l. bat4 images i j k l * bat4 e i j k l)"
  have bd: "bdim (size0 images) (size0 e) = Some ?n"
    unfolding s0 by (rule bdim_one[OF one])
  have m: "mul_broadcast images e = Inr ?out"
    by (rule mul_batch_broadcast[OF s bd])
  have r: "and_then (expand_channels bm (size1 images)) (mul_broadcast images) = Inr ?out"
    by (simp only: e m and_then.simps)
  have sz: "size0 ?out = ?n \<and> size1 ?out = size1 images \<and>
      size2 ?out = size2 images \<and> size3 ?out = size3 images"
    by (simp add: build4_def)
  have w: "wf_tensor4 ?out"
    unfolding wf_tensor4_def length_build4 by (simp add: build4_def)
  have el: "at4 (size1 images) (size2 images) (size3 images) (data ?out) i j k l =
         at4 (size1 images) (size2 images) (size3 images) (data images) (bidx (size0 images) i) j k l *
         at4 1 (size2 images) (size3 images) (elems bm) (bidx b i) 0 k l"
    if "i < ?n" "j < size1 images" "k < size2 images" "l < size3 images" for i j k l
  proof -
    have bi: "bidx b i < b" using bidx_batch[OF one that(1)] .
    have "at4 (size1 images) (size2 images) (size3 images) (data ?out) i j k l
        = bat4 images i j k l * bat4 e i j k l"
      using that by (rule at4_build4)
    also have "bat4 images i j k l =
        at4 (size1 images) (size2 images) (size3 images) (data images) (bidx (size0 images) i) j k l"
      using that by (intro bat4_batch)
    also have "bat4 e i j k l = at4 (size1 images) (size2 images) (size3 images) (data e) (bidx b i) j k l"
      using that bat4_batch[of j e k l i] by (simp add: s s0)
    also have "\<dots> = at4 1 (size2 images) (size3 images) (elems bm) (bidx b i) 0 k l"
      using bi that by (intro v)
    finally show ?thesis .
  qed
  show ?thesis
    using r sz w el by (intro exI[of _ ?out]) simp
qed


lemma broadcast_succeeds:
  assumes wfm: "wf_tensor masks"
    and shp: "shape masks = [b, 1, size2 images, size3 images] \<or>
              shape masks = [b, size2 images, size3 images]"
    and one: "b = 1 \<or> size0 images = 1"
  shows "\<exists>out. masked_images images masks = Inr out \<and>
      size0 out = (if b = 1 then size0 images else b) \<and> size1 out = size1 images \<and>
      size2 out = size2 images \<and> size3 out = size3 images \<and> wf_tensor4 out \<and>
      (\<forall>i<(if b = 1 then size0 images else b). \<forall>j<size1 images. \<forall>k<size2 images. \<forall>l<size3 images.
         at4 (size1 images) (size2 images) (size3 images) (data out) i j k l =
         at4 (size1 images) (size2 images) (size3 images) (data images) (bidx (size0 images) i) j k l *
         (if at4 1 (size2 images) (size3 images) (elems masks) (bidx b i) 0 k l > 0.5 then 1 else 0))"
proof -
  let ?B = "size0 images" and ?C = "size1 images" and ?H = "size2 images" and ?W = "size3 images"
  let ?n = "if b = 1 then ?B else b"
  from masked_images_unfold[OF shp, of images]
  obtain bm where bm: "shape bm = [b, 1, ?H, ?W]"
    and el: "elems bm = elems (prepare_binary_mask masks 0.5)"
    and mi: "masked_images images masks = and_then (expand_channels bm ?C) (mul_broadcast images)"
    by blast
  from masked_batch_broadcast[OF bm one]
  obtain out where out: "and_then (expand_channels bm ?C) (mul_broadcast images) = Inr out"
    and sz: "size0 out = ?n" "size1 out = ?C" "size2 out = ?H" "size3 out = ?W" "wf_tensor4 out"
    and v: "\<And>i j k l. i < ?n \<Longrightarrow> j < ?C \<Longrightarrow> k < ?H \<Longrightarrow> l < ?W \<Longrightarrow>
         at4 ?C ?H ?W (data out) i j k l =
         at4 ?C ?H ?W (data images) (bidx ?B i) j k l * at4 1 ?H ?W (elems bm) (bidx b i) 0 k l"
    by blast
  have len: "length (elems masks) = b * ?H * ?W"
    using wfm shp by (auto simp: wf_tensor_def)
  have bv: "at4 1 ?H ?W (elems bm) (bidx b i) 0 k l =
      (if at4 1 ?H ?W (elems masks) (bidx b i) 0 k l > 0.5 then 1 else 0)"
    if "i < ?n" "k < ?H" "l < ?W" for i k l
  proof -
    have bi: "bidx b i < b" using bidx_batch[OF one that(1)] .
    have "bidx b i * ?H + k < b * ?H" using bi that(2) by (rule offset_bound)
    then have "(bidx b i * ?H + k) * ?W + l < b * ?H * ?W" using that(3) by (rule offset_bound)
    then show ?thesis
      by (simp add: at4_def el binary_nth len)
  qed
  have all: "\<forall>i<?n. \<forall>j<?C. \<forall>k<?H. \<forall>l<?W.
         at4 ?C ?H ?W (data out) i j k l =
         at4 ?C ?H ?W (data images) (bidx ?B i) j k l *
         (if at4 1 ?H ?W (elems masks) (bidx b i) 0 k l > 0.5 then 1 else 0)"
    using v bv by simp
  have res: "masked_images images masks = Inr out"
    by (simp only: mi out)
  show ?thesis
    using res sz all by (intro exI[of _ out] conjI)
qed

subsection \<open>Claim C6\<close>

text \<open>
  C6 as stated: a mask batch and an image batch of different sizes along dimension 0 make
  the composition fail. The code never compares the two sizes; the elementwise product
  broadcasts. A mask batch of size 1 against an image batch of size 2 succeeds, the one mask
  being applied to both images.
\<close>

theorem batch_broadcast_counterexample:
  "shape masks1 = [1, 1, 2] \<and> size0 images2 = 2 \<and>
   masked_images images2 masks1 =
     Inr \<lparr> size0 = 2, size1 = 2, size2 = 1, size3 = 2, data = [0, 2, 0, 4, 0, 6, 0, 8] \<rparr>"
  by code_simp

text \<open>
  C6 as amended: the code has no error of its own for this case and never compares the two
  batch sizes. When the mask batch has a dimension 0 whose size differs from the image
  batch's and neither size is 1, the composition raises the tensor library's
  \<^verbatim>\<open>RuntimeError\<close> (from \<^verbatim>\<open>expand\<close> or from the product), whatever the rank of the
  mask. When one of the two sizes is 1 and the well-formed mask batch has the shape
  (b, 1, H, W) or (b, H, W) for images of sizes (B, C, H, W), the composition succeeds: its
  batch size is that of the other operand, and the operand of batch size 1 is read at batch
  index 0 for every row.
\<close>

theorem batch_size_disagreement:
  "(shape masks = b # rest \<longrightarrow> b \<noteq> size0 images \<longrightarrow> b \<noteq> 1 \<longrightarrow> size0 images \<noteq> 1 \<longrightarrow>
      masked_images images masks = Inl RuntimeError) \<and>
   (wf_tensor masks \<longrightarrow>
      (shape masks = [b, 1, size2 images, size3 images] \<or>
       shape masks = [b, size2 images, size3 images]) \<longrightarrow>
      (b = 1 \<or> size0 images = 1) \<longrightarrow>
      (\<exists>out. masked_images images masks = Inr out \<and>
        size0 out = (if b = 1 then size0 images else b) \<and> size1 out = size1 images \<and>
        size2 out = size2 images \<and> size3 out = size3 images \<and> wf_tensor4 out \<and>
        (\<forall>i<(if b = 1 then size0 images else b). \<forall>j<size1 images. \<forall>k<size2 images. \<forall>l<size3 images.
           at4 (size1 images) (size2 images) (size3 images) (data out) i j k l =
           at4 (size1 images) (size2 images) (size3 images) (data images) (bidx (size0 images) i) j k l *
           (if at4 1 (size2 images) (size3 images) (elems masks) (bidx b i) 0 k l > 0.5 then 1 else 0))))"
  using mismatch_raises[of masks b rest images] broadcast_succeeds[of masks b images]
  by (intro conjI impI)

theorem batch_size_disagreement_witness:
  "shape masks3 = 3 # [1, 2] \<and> 3 \<noteq> size0 images2 \<and> (3::nat) \<noteq> 1 \<and> size0 images2 \<noteq> 1 \<and>
   masked_images images2 masks3 = Inl RuntimeError \<and>
   wf_tensor masks1 \<and> shape masks1 = [1, size2 images2, size3 images2] \<and> size0 images2 = 2 \<and>
   (\<exists>out. masked_images images2 masks1 = Inr out \<and> size0 out = 2 \<and> size1 out = 2 \<and>
      size2 out = 1 \<and> size3 out = 2 \<and> wf_tensor4 out \<and>
      at4 2 1 2 (data out) 1 1 0 1 = 8 \<and> at4 2 1 2 (data out) 1 1 0 0 = 0)"
proof -
  have 1: "shape masks3 = 3 # [1, 2]" by (simp add: masks3_def)
  have 2: "3 \<noteq> size0 images2" by (simp add: images2_def)
  have 3: "(3::nat) \<noteq> 1" by simp
  have 4: "size0 images2 \<noteq> 1" by (simp add: images2_def)
  have f: "masked_images images2 masks3 = Inl RuntimeError"
    using batch_size_disagreement [of masks3 3 "[1, 2]" images2] 1 2 3 4 by blast
  have wfm: "wf_tensor masks1" by (simp add: masks1_def wf_tensor_def)
  have shp: "shape masks1 = [1, size2 images2, size3 images2]"
    by (simp add: masks1_def images2_def)
  have s: "size0 images2 = 2" "size1 images2 = 2" "size2 images2 = 1" "size3 images2 = 2"
    by (simp_all add: images2_def)
  from batch_size_disagreement [of masks1 1 _ images2] wfm shp
  obtain out where out: "masked_images images2 masks1 = Inr out"
    and sz: "size0 out = size0 images2" "size1 out = size1 images2"
      "size2 out = size2 images2" "size3 out = size3 images2" "wf_tensor4 out"
    and v: "\<forall>i<size0 images2. \<forall>j<size1 images2. \<forall>k<size2 images2. \<forall>l<size3 images2.
         at4 (size1 images2) (size2 images2) (size3 images2) (data out) i j k l =
         at4 (size1 images2) (size2 images2) (size3 images2) (data images2) (bidx (size0 images2) i) j k l *
         (if at4 1 (size2 images2) (size3 images2) (elems masks1) (bidx 1 i) 0 k l > 0.5 then 1 else 0)"
    by auto
  have a: "at4 2 1 2 (data out) 1 1 0 1 = 8"
    using v [unfolded s, rule_format, of 1 1 0 1]
    by (simp add: images2_def masks1_def at4_def bidx_def)
  have b: "at4 2 1 2 (data out) 1 1 0 0 = 0"
    using v [unfolded s, rule_format, of 1 1 0 0]
    by (simp add: images2_def masks1_def at4_def bidx_def)
  show ?thesis
    using 1 2 3 4 f wfm shp out sz a b unfolding s by blast
qed

section \<open>Properties of feature extraction\<close>


subsection \<open>Claim C7\<close>




section \<open>Properties of model selection\<close>

subsection \<open>Claim C10\<close>

text \<open>
  C10: with a \<^verbatim>\<open>CLIP\<close> entry in the configuration, \<^verbatim>\<open>main\<close> selects \<^verbatim>\<open>DINOV2\<close> exactly
  when the entry's name is the string \<^verbatim>\<open>"None"\<close>, and \<^verbatim>\<open>CLIP\<close> in every other case, also when
  the name is absent or null.
\<close>

theorem model_type_CLIP_unless_None:
  assumes "models ''CLIP'' = Some clip"
  shows "(model_type models = Inr ''DINOV2'' \<longleftrightarrow> name clip = Some ''None'') \<and>
         (model_type models = Inr ''CLIP'' \<longleftrightarrow> name clip \<noteq> Some ''None'') \<and>
         (name clip = None \<longrightarrow> model_type models = Inr ''CLIP'')"
  using assms by (auto simp: model_type_def)

theorem model_type_CLIP_unless_None_witness:
  "[''CLIP'' \<mapsto> unnamed_clip] ''CLIP'' = Some unnamed_clip \<and> name unnamed_clip = None \<and>
   model_type [''CLIP'' \<mapsto> unnamed_clip] = Inr ''CLIP''"
proof -
  have 1: "[''CLIP'' \<mapsto> unnamed_clip] ''CLIP'' = Some unnamed_clip" by simp
  have 2: "name unnamed_clip = None" by (simp add: unnamed_clip_def)
  show ?thesis
    using 1 2 model_type_CLIP_unless_None [of "[''CLIP'' \<mapsto> unnamed_clip]" unnamed_clip, OF 1] by blast
qed

section \<open>Properties of sharding\<close>

lemma ceil_total_bounds:
  assumes "0 < (nr::nat)"
  shows "n \<le> ((n + nr - 1) div nr) * nr" and "((n + nr - 1) div nr) * nr < n + nr"
proof -
  let ?q = "(n + nr - 1) div nr" and ?m = "(n + nr - 1) mod nr"
  have e: "?q * nr + ?m = n + nr - 1" by simp
  have m: "?m < nr" using assms by simp
  from e m assms show "n \<le> ?q * nr" by linarith
  from e assms show "?q * nr < n + nr" by linarith
qed

lemma nth_concat_replicate:
  "j < m * length xs \<Longrightarrow> concat (replicate m xs) ! j = xs ! (j mod length xs)"
proof (induction m arbitrary: j)
  case 0 then show ?case by simp
next
  case (Suc m)
  show ?case
  proof (cases "j < length xs")
    case True then show ?thesis by (simp add: nth_append)
  next
    case False
    then have "j - length xs < m * length xs" using Suc.prems by simp
    from Suc.IH[OF this] False show ?thesis
      by (simp add: nth_append le_mod_geq)
  qed
qed

lemma length_concat_replicate: "length (concat (replicate m xs)) = m * length xs"
  by (induction m) simp_all

lemma padded_nth:
  fixes n p :: nat
  defines "padded \<equiv> (if p \<le> length [0..<n] then [0..<n] @ take p [0..<n]
             else [0..<n] @ take p (concat (replicate ((p + length [0..<n] - 1) div length [0..<n]) [0..<n])))"
  assumes n: "0 < n"
  shows "length padded = n + p" and "j < n + p \<Longrightarrow> padded ! j = j mod n"
proof -
  let ?m = "(p + n - 1) div n"
  have mp: "p \<le> ?m * n" using ceil_total_bounds(1)[OF n, of p] .
  show "length padded = n + p"
    using mp by (simp add: padded_def length_concat_replicate min_def)
  assume j: "j < n + p"
  show "padded ! j = j mod n"
  proof (cases "j < n")
    case True
    then show ?thesis by (simp add: padded_def nth_append)
  next
    case False
    then have jn: "j - n < p" using j by simp
    show ?thesis
    proof (cases "p \<le> n")
      case True
      then have "j - n < n" using jn by simp
      then have "j mod n = j - n" using False by (simp add: le_mod_geq)
      then show ?thesis using True False jn by (simp add: padded_def nth_append)
    next
      case F2: False
      have "j - n < ?m * n" using jn mp by simp
      then have "concat (replicate ?m [0..<n]) ! (j - n) = [0..<n] ! ((j - n) mod n)"
        using nth_concat_replicate[of "j - n" ?m "[0..<n]"] by simp
      also have "\<dots> = (j - n) mod n" using n by simp
      also have "\<dots> = j mod n" using False by (simp add: le_mod_geq)
      finally show ?thesis using F2 False jn by (simp add: padded_def nth_append)
    qed
  qed
qed


lemma slice_count:
  assumes "0 < (nr::nat)" "r < nr"
  shows "(ns * nr - r + nr - 1) div nr = ns"
proof (cases "ns = 0")
  case True
  then show ?thesis using assms by simp
next
  case False
  define d where "d = nr - 1 - r"
  have d: "d < nr" using assms by (simp add: d_def)
  from False have "nr \<le> ns * nr" using assms by (cases ns) simp_all
  then have e: "ns * nr - r + nr - 1 = d + ns * nr"
    unfolding d_def using assms by arith
  have "(d + ns * nr) div nr = ns" using d by simp
  then show ?thesis by (simp only: e)
qed

lemma distributed_sampler_eq:
  assumes nr: "0 < nr" and r: "r < nr"
  shows "distributed_sampler nr r n = map (\<lambda>k. (r + k * nr) mod n) [0..<(n + nr - 1) div nr]"
proof (cases "n = 0")
  case True
  have "(nr - Suc 0) div nr = 0" using nr by simp
  then show ?thesis using True by (simp add: distributed_sampler_def slice_step_def Let_def)
next
  case False
  then have n: "0 < n" by simp
  let ?ns = "(n + nr - 1) div nr"
  let ?p = "?ns * nr - n"
  let ?padded = "(if ?p \<le> length [0..<n] then [0..<n] @ take ?p [0..<n]
             else [0..<n] @ take ?p (concat (replicate ((?p + length [0..<n] - 1) div length [0..<n]) [0..<n])))"
  have tot: "n + ?p = ?ns * nr" using ceil_total_bounds(1)[OF nr, of n] by simp
  have len: "length ?padded = ?ns * nr"
    using padded_nth(1)[OF n, of ?p] tot by simp
  have nth: "?padded ! j = j mod n" if "j < ?ns * nr" for j
    using padded_nth(2)[OF n, of j ?p] that tot by simp
  have ds: "distributed_sampler nr r n = slice_step ?padded r (?ns * nr) nr"
    by (simp add: distributed_sampler_def Let_def)
  have cnt: "(min (?ns * nr) (length ?padded) - r + nr - 1) div nr = ?ns"
    unfolding len using slice_count[OF nr r, of ?ns] by simp
  have "slice_step ?padded r (?ns * nr) nr = map (\<lambda>k. ?padded ! (r + k * nr)) [0..<?ns]"
    unfolding slice_step_def cnt ..
  also have "\<dots> = map (\<lambda>k. (r + k * nr) mod n) [0..<?ns]"
  proof (rule map_cong[OF refl])
    fix k assume "k \<in> set [0..<?ns]"
    then have "k < ?ns" by simp
    then have "k * nr + r < ?ns * nr" using r by (intro offset_bound)
    then have "r + k * nr < ?ns * nr" by (simp only: add.commute)
    then show "?padded ! (r + k * nr) = (r + k * nr) mod n" by (rule nth)
  qed
  finally show ?thesis using ds by simp
qed

lemma shard_members:
  assumes ws: "0 < ws"
  shows "(\<exists>rank<ws. i \<in> set (distributed_sampler ws rank n)) \<longleftrightarrow> i < n"
proof
  assume "\<exists>rank<ws. i \<in> set (distributed_sampler ws rank n)"
  then obtain rank k where "rank < ws" and k: "k < (n + ws - 1) div ws" and i: "i = (rank + k * ws) mod n"
    by (auto simp: distributed_sampler_eq[OF ws])
  have "n \<noteq> 0"
  proof
    assume "n = 0"
    then have "(n + ws - 1) div ws = 0" using ws by simp
    with k show False by simp
  qed
  then show "i < n" by (simp add: i)
next
  assume i: "i < n"
  let ?r = "i mod ws" and ?k = "i div ws"
  have r: "?r < ws" using ws by simp
  have "?k * ws \<le> i" by simp
  also have "i < n" by (rule i)
  also have "n \<le> ((n + ws - 1) div ws) * ws" by (rule ceil_total_bounds(1)[OF ws])
  finally have k: "?k < (n + ws - 1) div ws" using ws by simp
  have "(?r + ?k * ws) mod n = i" using i by simp
  then have "i \<in> set (distributed_sampler ws ?r n)"
    unfolding distributed_sampler_eq[OF ws r] using k by (auto simp: image_iff intro!: bexI[of _ ?k])
  with r show "\<exists>rank<ws. i \<in> set (distributed_sampler ws rank n)" by blast
qed

lemma concat_map_product:
  "concat (map (\<lambda>r. map (f r) ys) xs) = map (\<lambda>(r, k). f r k) (List.product xs ys)"
  by (induction xs) simp_all

lemma stride_inj:
  assumes "0 < (ws::nat)"
  shows "inj_on (\<lambda>(r, k). r + k * ws) ({0..<ws} \<times> A)"
proof (rule inj_onI, clarify)
  fix r k r' k' assume r: "r \<in> {0..<ws}" "r' \<in> {0..<ws}" and e: "r + k * ws = r' + k' * ws"
  from e have "(r + k * ws) mod ws = (r' + k' * ws) mod ws" by simp
  with r have rr: "r = r'" by simp
  with e assms have "k = k'" by simp
  with rr show "r = r' \<and> k = k'" by simp
qed

lemma shards_distinct:
  assumes ws: "0 < ws" and dv: "ws dvd n"
  shows "distinct (concat (map (\<lambda>rank. distributed_sampler ws rank n) [0..<ws]))"
proof -
  let ?ns = "(n + ws - 1) div ws"
  from dv obtain q where q: "n = q * ws" by (auto simp: dvd_def mult.commute)
  define d where "d = ws - 1"
  have d: "d < ws" using ws by (simp add: d_def)
  have e: "n + ws - 1 = d + q * ws"
    unfolding q d_def using ws by arith
  have "(d + q * ws) div ws = q" using d by simp
  then have ns: "?ns = q" by (simp only: e)
  have sh: "distributed_sampler ws rank n = map (\<lambda>k. rank + k * ws) [0..<?ns]" if "rank < ws" for rank
  proof -
    have "(rank + k * ws) mod n = rank + k * ws" if "k < ?ns" for k
    proof -
      have "k * ws + rank < q * ws" using that \<open>rank < ws\<close> unfolding ns by (intro offset_bound)
      then show ?thesis by (simp add: q add.commute)
    qed
    then show ?thesis unfolding distributed_sampler_eq[OF ws that] by simp
  qed
  have "map (\<lambda>rank. distributed_sampler ws rank n) [0..<ws]
      = map (\<lambda>rank. map (\<lambda>k. rank + k * ws) [0..<?ns]) [0..<ws]"
    by (rule map_cong[OF refl]) (simp add: sh)
  then have "concat (map (\<lambda>rank. distributed_sampler ws rank n) [0..<ws])
      = map (\<lambda>(r, k). r + k * ws) (List.product [0..<ws] [0..<?ns])"
    by (simp only: concat_map_product)
  moreover have "distinct (map (\<lambda>(r, k). r + k * ws) (List.product [0..<ws] [0..<?ns]))"
    using stride_inj[OF ws, of "{0..<?ns}"] by (simp add: distinct_map distinct_product)
  ultimately show ?thesis by simp
qed

lemma shards_length:
  assumes ws: "0 < ws"
  shows "length (concat (map (\<lambda>rank. distributed_sampler ws rank n) [0..<ws]))
       = ws * ((n + ws - 1) div ws)"
  by (rule length_concat_upt) (simp add: distributed_sampler_eq[OF ws])

lemma shards_subset:
  assumes ws: "0 < ws"
  shows "set (concat (map (\<lambda>rank. distributed_sampler ws rank n) [0..<ws])) \<subseteq> {0..<n}"
proof
  fix i assume "i \<in> set (concat (map (\<lambda>rank. distributed_sampler ws rank n) [0..<ws]))"
  then have "\<exists>rank<ws. i \<in> set (distributed_sampler ws rank n)" by auto
  then have "i < n" by (simp only: shard_members[OF ws])
  then show "i \<in> {0..<n}" by simp
qed

lemma shards_distinct_dvd:
  assumes ws: "0 < ws"
    and di: "distinct (concat (map (\<lambda>rank. distributed_sampler ws rank n) [0..<ws]))"
  shows "ws dvd n"
proof -
  let ?L = "concat (map (\<lambda>rank. distributed_sampler ws rank n) [0..<ws])"
  let ?ns = "(n + ws - 1) div ws"
  have "length ?L = card (set ?L)" using di by (rule distinct_card[symmetric])
  also have "\<dots> \<le> card {0..<n}" using shards_subset[OF ws] by (intro card_mono) simp_all
  finally have "ws * ?ns \<le> n" by (simp add: shards_length[OF ws])
  moreover have "n \<le> ?ns * ws" by (rule ceil_total_bounds(1)[OF ws])
  ultimately have "n = ws * ?ns" by (simp add: mult.commute)
  then show ?thesis by (rule dvdI)
qed

subsection \<open>Claim C4\<close>

text \<open>
  C4 as stated: the shards are a strict partition for every worker count and dataset size.
  With two workers and three samples the sampler pads the index list with its first element,
  and the sample 0 is in both shards.
\<close>

theorem shards_overlap_counterexample:
  "shard True 2 0 3 = [0, 2] \<and> shard True 2 1 3 = [1, 0]"
  by code_simp

text \<open>
  C4 as amended: the shard is a function of the worker count, the rank and the dataset size
  alone. For every positive worker count \<open>w\<close> and dataset size \<open>n\<close>: a sample index is in
  some worker's shard exactly when it is an index of the dataset (nothing is omitted, nothing
  foreign is added); every shard has \<open>n\<close> divided by \<open>w\<close>, rounded up, entries, the k-th
  entry of rank r's shard being the index \<open>(r + k * w) mod n\<close>; the shards together have
  \<open>w\<close> times that many entries; and no index occurs twice in all the shards together exactly
  when \<open>w\<close> divides \<open>n\<close>. The shards are thus a strict partition when the worker count
  divides the dataset size, and otherwise some sample occurs more than once in them. The
  single-process shard is the whole dataset in order.
\<close>

theorem shards_cover_dataset:
  assumes ws: "0 < world_size"
  shows "(\<forall>i. (\<exists>rank<world_size. i \<in> set (shard True world_size rank n)) \<longleftrightarrow> i < n) \<and>
         (\<forall>rank<world_size. length (shard True world_size rank n) = (n + world_size - 1) div world_size) \<and>
         (\<forall>rank<world_size. shard True world_size rank n =
            map (\<lambda>k. (rank + k * world_size) mod n) [0..<(n + world_size - 1) div world_size]) \<and>
         (distinct (concat (map (\<lambda>rank. shard True world_size rank n) [0..<world_size]))
            \<longleftrightarrow> world_size dvd n) \<and>
         length (concat (map (\<lambda>rank. shard True world_size rank n) [0..<world_size]))
            = world_size * ((n + world_size - 1) div world_size) \<and>
         shard False world_size 0 n = [0..<n]"
proof (intro conjI allI impI)
  fix i
  show "(\<exists>rank<world_size. i \<in> set (shard True world_size rank n)) \<longleftrightarrow> i < n"
    using shard_members[OF ws] by (simp add: shard_def)
next
  fix rank assume "rank < world_size"
  then show "length (shard True world_size rank n) = (n + world_size - 1) div world_size"
    by (simp add: shard_def distributed_sampler_eq[OF ws])
next
  fix rank assume "rank < world_size"
  then show "shard True world_size rank n =
      map (\<lambda>k. (rank + k * world_size) mod n) [0..<(n + world_size - 1) div world_size]"
    by (simp add: shard_def distributed_sampler_eq[OF ws])
next
  show "distinct (concat (map (\<lambda>rank. shard True world_size rank n) [0..<world_size]))
      \<longleftrightarrow> world_size dvd n"
    using shards_distinct[OF ws] shards_distinct_dvd[OF ws] by (auto simp: shard_def)
next
  show "length (concat (map (\<lambda>rank. shard True world_size rank n) [0..<world_size]))
      = world_size * ((n + world_size - 1) div world_size)"
    using shards_length[OF ws] by (simp add: shard_def)
next
  show "shard False world_size 0 n = [0..<n]"
    by (simp add: shard_def)
qed

theorem shards_cover_dataset_witness:
  "(0::nat) < 2 \<and> (2::nat) dvd 4 \<and> \<not> (2::nat) dvd 3 \<and>
   distinct (concat (map (\<lambda>rank. shard True 2 rank 4) [0..<2])) \<and>
   \<not> distinct (concat (map (\<lambda>rank. shard True 2 rank 3) [0..<2])) \<and>
   length (shard True 2 1 4) = 2 \<and>
   ((\<exists>rank<2. 3 \<in> set (shard True 2 rank 4)) \<longleftrightarrow> (3::nat) < 4)"
proof -
  have p: "(0::nat) < 2" by simp
  have d: "(2::nat) dvd 4" by simp
  have nd: "\<not> (2::nat) dvd 3" by simp
  have l: "(4 + 2 - 1) div 2 = (2::nat)" by simp
  from shards_cover_dataset [OF p, of 4] shards_cover_dataset [OF p, of 3] d nd l show ?thesis
    by (auto simp del: One_nat_def)
qed

section \<open>Properties of the run\<close>

lemma sampler_empty: "0 < ws \<Longrightarrow> distributed_sampler ws rank 0 = []"
  by (simp add: distributed_sampler_def slice_step_def Let_def)

lemma worker_pass_empty: "0 < batch_size \<Longrightarrow> worker_pass c batch_size [] = Inr ([], None)"
  by (simp add: worker_pass_def data_loader_def chunks.simps)

lemma worker_pass_batch_size_0: "worker_pass c 0 indices = Inl ValueError"
  by (simp add: worker_pass_def data_loader_def)

lemma gather_replicate: "gather (replicate k (Inr x)) = Inr (replicate k x)"
  by (induction k) simp_all

lemma flatten_metadata_None: "flatten_metadata None (replicate k None) = Inr None"
  by (induction k) simp_all

lemma reconcile_empty_logs: "reconcile (replicate k ([], None)) = Inl (KeyError ''id'')"
  by (simp add: reconcile_def global_flatten_def flatten_metadata_None canonicalize_def)

lemma single_sample_one_row:
  assumes bs: "0 < batch_size"
    and p: "process c [0] = Inr ([f], md)"
    and md: "md = \<lparr> id_col = [i], object_name = [a], data_dir = [b], image_path = [d],
                     mask_path = [e], dataset_type = [g] \<rparr>"
  shows "global_result_set c False 1 batch_size 1 = Inr ([f], Accumulated (Some md))"
    and "global_result_set c True 1 batch_size 1 = Inr ([f], Sorted md)"
proof -
  have ch: "chunks batch_size [0::nat] = [[0]]"
    using bs by (simp add: chunks.simps)
  have "distributed_sampler 1 0 1 = [0]"
    by code_simp
  then have ds: "distributed_sampler (Suc 0) 0 (Suc 0) = [0]"
    by simp
  have wp: "worker_pass c batch_size [0] = Inr ([[f]], Some md)"
    using bs by (simp add: worker_pass_def data_loader_def ch p accumulate_batch_def)
  show "global_result_set c False 1 batch_size 1 = Inr ([f], Accumulated (Some md))"
    by (simp add: global_result_set_def shard_def wp vstack_def)
  have "reconcile [([[f]], Some md)] = Inr ([f], md)"
    by (simp add: md reconcile_def global_flatten_def flatten_features_def canonicalize_def
        sorted_indices_def take_rows_def)
  then show "global_result_set c True 1 batch_size 1 = Inr ([f], Sorted md)"
    by (simp add: global_result_set_def shard_def ds wp)
qed

subsection \<open>Claim C9\<close>

text \<open>
  C9: a dataset of size 1 with one worker gives a result set of exactly one row (this is
  \<open>single_sample_one_row\<close>), and a dataset of size 0 gives an empty index build instead of
  a crash. The code does not do the latter. With an empty dataset and a positive batch size
  no batch is processed; the single-process run raises \<^verbatim>\<open>ValueError\<close> at \<^verbatim>\<open>np.vstack\<close> of
  the empty list, the distributed run raises \<^verbatim>\<open>KeyError\<close> at \<^verbatim>\<open>flat_metadata['id']\<close>, and
  neither writes an artifact, whatever the encoder, the index and the positive worker count.
  (With the batch size 0 the data loader's constructor has raised before, as
  \<open>worker_pass_batch_size_0\<close> says.)
\<close>

theorem empty_dataset_raises:
  assumes "0 < world_size" and "0 < batch_size"
  shows "run_extraction c False world_size batch_size 0 = (Inl ValueError, no_artifacts) \<and>
         run_extraction c True world_size batch_size 0 = (Inl (KeyError ''id''), no_artifacts)"
proof
  show "run_extraction c False world_size batch_size 0 = (Inl ValueError, no_artifacts)"
    using assms(2)
    by (simp add: run_extraction_def global_result_set_def shard_def worker_pass_empty vstack_def)
next
  have "map (\<lambda>rank. worker_pass c batch_size (shard True world_size rank 0)) [0..<world_size]
      = replicate world_size (Inr ([], None))"
    using assms by (simp add: shard_def sampler_empty worker_pass_empty map_replicate_const)
  then have "global_result_set c True world_size batch_size 0 = Inl (KeyError ''id'')"
    by (simp add: global_result_set_def gather_replicate reconcile_empty_logs)
  then show "run_extraction c True world_size batch_size 0 = (Inl (KeyError ''id''), no_artifacts)"
    by (simp add: run_extraction_def)
qed

theorem empty_dataset_raises_witness:
  "(0::nat) < 1 \<and> (0::nat) < 2 \<and>
   run_extraction (stub []) False 1 2 0 = (Inl ValueError, no_artifacts) \<and>
   run_extraction (stub []) True 1 2 0 = (Inl (KeyError ''id''), no_artifacts)"
proof -
  have p: "(0::nat) < 1" by simp
  have q: "(0::nat) < 2" by simp
  from empty_dataset_raises [OF p q, of "stub []"] p q show ?thesis by simp
qed

subsection \<open>Claim C8\<close>

text \<open>
  C8: on a successful run rank 0 writes the index, a summary and a metadata sidecar with one
  record per sample, in the row order of the index. The code does not do this. In the
  distributed run of the four-sample dataset on two workers the index rows are the vectors
  of the samples 2, 1, 4, 3 and the five string columns of the sidecar follow them, but the
  sidecar's id column reads 1, 2, 3, 4: no record but the second carries the id of its own
  sample. In the single-process run of the same dataset the index is written and
  \<^verbatim>\<open>json.dump\<close> then raises \<^verbatim>\<open>TypeError\<close> on the id tensor, leaving an incomplete
  sidecar and no summary.
\<close>

theorem sidecar_ids_misaligned:
  "run_extraction (stub dataset_ids) True 2 2 4 =
     (Inr (),
      \<lparr> index_file = Some [''v2'', ''v1'', ''v4'', ''v3''],
        metadata_file = Some (Complete (Some
          \<lparr> id_col = [1, 2, 3, 4],
            object_name = [''obj2'', ''obj1'', ''obj4'', ''obj3''],
            data_dir = [''dir2'', ''dir1'', ''dir4'', ''dir3''],
            image_path = [''img2'', ''img1'', ''img4'', ''img3''],
            mask_path = [''msk2'', ''msk1'', ''msk4'', ''msk3''],
            dataset_type = [''typ2'', ''typ1'', ''typ4'', ''typ3''] \<rparr>)),
        summary_file = Some \<lparr> total_features = 4, number_of_images = 6 \<rparr> \<rparr>) \<and>
   run_extraction (stub dataset_ids) False 1 2 4 =
     (Inl TypeError,
      \<lparr> index_file = Some [''v3'', ''v4'', ''v1'', ''v2''],
        metadata_file = Some Incomplete, summary_file = None \<rparr>)"
  by code_simp

end
